theory Spec2Isabelle
  imports Main "HOL-Library.Signed_Division"
begin

section \<open>Data model\<close>

text \<open>
  The file system of the teaching kernel: the free-space bitmap (free-map.c), the inode layer
  (inode.c, the activated contiguous-extent variant), the file handle (file.c) and the
  coordinator (filesys.c).

  Sector numbers and sizes (\<open>block_sector_t\<close>, \<open>size_t\<close>) are natural numbers, byte
  offsets (\<open>off_t\<close>, a signed 32-bit integer) are integers. The statements below keep every
  offset between 0 and the length of an inode, where no 32-bit operation of the code wraps.
  Division and remainder are C's (truncating): \<open>sdiv\<close> and \<open>smod\<close>.
\<close>

type_synonym block_sector_t = nat
type_synonym off_t = int
type_synonym bitmap = "bool list"

text \<open>A pointer is an address, or NULL (\<open>None\<close>).\<close>

type_synonym ptr = "nat option"

text \<open>struct inode_disk (inode.c): the on-disk inode, one sector long.\<close>

record inode_disk =
  start :: block_sector_t
  length_bytes :: off_t
  magic :: nat
  is_symlink :: bool

text \<open>struct inode (inode.c): the in-memory inode. The list element is the position of the
  inode's address in \<open>open_inodes\<close>.\<close>

record inode =
  sector :: block_sector_t
  open_cnt :: int
  removed :: bool
  deny_write_cnt :: int
  data :: inode_disk

text \<open>struct file (file.h): a handle on an inode (\<open>file\<close> is a keyword here).\<close>

record file_t =
  inode :: nat
  pos :: off_t
  deny_write :: bool

text \<open>
  A sector of the block device holds an inode record or 512 data bytes. The byte layout of a
  record is not modelled: a data sector read as a record gives the record of all zero bytes
  (exact for a zero-filled sector), a record read as data gives zero bytes.
\<close>

datatype block = Inode_blk inode_disk | Data_blk "char list"

text \<open>
  The state of the file system: the free map and its file (\<open>free_map\<close>,
  \<open>free_map_file\<close> of free-map.c), the list of open inodes (\<open>open_inodes\<close> of inode.c),
  the kernel heap holding the in-memory inodes and the file handles, and the block device
  (\<open>fs_device\<close>). \<open>persisted\<close> is the copy of the bitmap stored in the free-map file.
  \<open>brk\<close> is the next address malloc hands out. \<open>env\<close> lists the answers of the
  environment to the calls that can fail for reasons outside the file system (malloc, calloc,
  and the write of the bitmap to its file), in call order: False is a failure, and an
  exhausted list means success. \<open>dir_entries\<close> is the directory table (see below).
\<close>

record fs =
  free_map :: bitmap
  free_map_file :: ptr
  persisted :: bitmap
  open_inodes :: "nat list"
  inodes :: "nat \<rightharpoonup> inode"
  files :: "nat \<rightharpoonup> file_t"
  disk :: "block_sector_t \<Rightarrow> block"
  brk :: nat
  env :: "bool list"
  dir_entries :: "(string \<times> block_sector_t) list"

definition INODE_MAGIC :: nat where
  "INODE_MAGIC = 0x494e4f44"

definition FREE_MAP_SECTOR :: block_sector_t where
  "FREE_MAP_SECTOR = 0"

definition ROOT_DIR_SECTOR :: block_sector_t where
  "ROOT_DIR_SECTOR = 1"

section \<open>Environment\<close>

text \<open>The next answer of the environment.\<close>

definition env_next :: "fs \<Rightarrow> bool \<times> fs" where
  "env_next s = (case env s of [] \<Rightarrow> (True, s) | b # bs \<Rightarrow> (b, s\<lparr>env := bs\<rparr>))"

definition env_ok :: "fs \<Rightarrow> bool" where
  "env_ok s = fst (env_next s)"

text \<open>malloc and calloc: NULL when the environment says so, else a fresh address.\<close>

definition malloc :: "fs \<Rightarrow> ptr \<times> fs" where
  "malloc s = (case env_next s of
      (False, s1) \<Rightarrow> (None, s1)
    | (True, s1) \<Rightarrow> (Some (brk s1), s1\<lparr>brk := Suc (brk s1)\<rparr>))"

section \<open>Bitmap\<close>

text \<open>
  lib/kernel/bitmap.c is not among the sources: the operations of the bitmap that free-map.c
  calls are modelled from the spec, which has one bit per sector, set when the sector is
  allocated.
\<close>

text \<open>
  Modelled from the spec: bitmap_contains tells whether any of the \<open>cnt\<close> bits from
  \<open>start'\<close> on has the value \<open>v\<close> (the spec's "all count bits starting at start must
  currently be set" is its negation for the value false).
\<close>

definition bitmap_contains :: "bitmap \<Rightarrow> nat \<Rightarrow> nat \<Rightarrow> bool \<Rightarrow> bool" where
  "bitmap_contains b start' cnt v = list_ex (\<lambda>i. b ! i = v) [start' ..< start' + cnt]"

text \<open>
  Modelled from the spec: bitmap_all is the precondition of release, "all count bits starting
  at start must currently be set"; the bits are bits of the bitmap.
\<close>

definition bitmap_all :: "bitmap \<Rightarrow> nat \<Rightarrow> nat \<Rightarrow> bool" where
  "bitmap_all b start' cnt = (start' + cnt \<le> length b \<and> \<not> bitmap_contains b start' cnt False)"

text \<open>
  Modelled from the spec: bitmap_set_multiple gives the \<open>cnt\<close> bits from \<open>start'\<close> on
  the value \<open>v\<close> ("the flipped bits are rolled back to clear", "Clears the bits").
\<close>

primrec bitmap_set_multiple :: "bitmap \<Rightarrow> nat \<Rightarrow> nat \<Rightarrow> bool \<Rightarrow> bitmap" where
  "bitmap_set_multiple b start' 0 v = b"
| "bitmap_set_multiple b start' (Suc cnt) v = bitmap_set_multiple (b[start' := v]) (Suc start') cnt v"

text \<open>
  Modelled from the spec: bitmap_scan finds "the first run of count consecutive clear bits"
  (bits of value \<open>v\<close>, from \<open>start'\<close> on). \<open>None\<close> is BITMAP_ERROR.
\<close>

definition bitmap_scan :: "bitmap \<Rightarrow> nat \<Rightarrow> nat \<Rightarrow> bool \<Rightarrow> nat option" where
  "bitmap_scan b start' cnt v =
     (if cnt \<le> length b
      then find (\<lambda>i. \<not> bitmap_contains b i cnt (\<not> v)) [start' ..< Suc (length b - cnt)]
      else None)"

text \<open>
  Modelled from the spec: bitmap_scan_and_flip finds the run and flips it ("flip them to set").
\<close>

definition bitmap_scan_and_flip :: "bitmap \<Rightarrow> nat \<Rightarrow> nat \<Rightarrow> bool \<Rightarrow> nat option \<times> bitmap" where
  "bitmap_scan_and_flip b start' cnt v =
     (case bitmap_scan b start' cnt v of
        None \<Rightarrow> (None, b)
      | Some idx \<Rightarrow> (Some idx, bitmap_set_multiple b idx cnt (\<not> v)))"

text \<open>
  Modelled from the spec: bitmap_write (lib/kernel/bitmap.c) is "persist the bitmap to its
  backing file", and "persistence fails" when the environment says so. A failed write leaves
  the stored copy as it was.
\<close>

definition bitmap_write :: "fs \<Rightarrow> bool \<times> fs" where
  "bitmap_write s = (case env_next s of
      (True, s1) \<Rightarrow> (True, s1\<lparr>persisted := free_map s1\<rparr>)
    | (False, s1) \<Rightarrow> (False, s1))"

section \<open>Free map (free-map.c)\<close>

text \<open>
  free_map_allocate: \<open>Some sector\<close> is the result true with the sector stored in
  \<open>*sectorp\<close>; \<open>None\<close> is the result false, with \<open>*sectorp\<close> left alone.
\<close>

definition free_map_allocate :: "nat \<Rightarrow> fs \<Rightarrow> block_sector_t option \<times> fs" where
  "free_map_allocate cnt s =
     (case bitmap_scan_and_flip (free_map s) 0 cnt False of
        (None, b) \<Rightarrow> (None, s\<lparr>free_map := b\<rparr>)
      | (Some sector', b) \<Rightarrow>
          (let s1 = s\<lparr>free_map := b\<rparr> in
           if free_map_file s1 \<noteq> None
           then (case bitmap_write s1 of
                   (False, s2) \<Rightarrow>
                     (None, s2\<lparr>free_map := bitmap_set_multiple (free_map s2) sector' cnt False\<rparr>)
                 | (True, s2) \<Rightarrow> (Some sector', s2))
           else (Some sector', s1)))"

text \<open>
  free_map_release: \<open>None\<close> is the kernel panic of the failed assertion, or the fault of
  writing through a null \<open>free_map_file\<close>. The result of bitmap_write is ignored.
\<close>

definition free_map_release :: "block_sector_t \<Rightarrow> nat \<Rightarrow> fs \<Rightarrow> fs option" where
  "free_map_release sector' cnt s =
     (if \<not> bitmap_all (free_map s) sector' cnt then None
      else let s1 = s\<lparr>free_map := bitmap_set_multiple (free_map s) sector' cnt False\<rparr> in
           if free_map_file s1 = None then None
           else Some (snd (bitmap_write s1)))"

section \<open>Block device\<close>

text \<open>
  devices/block.c is not among the sources: the block device is modelled from the spec, where
  it is external, with "read(sector, buffer)" and "write(sector, buffer)".
\<close>

text \<open>
  Modelled from the spec: "sector size is a fixed compile-time constant", 512 bytes in the
  spec's scenarios.
\<close>

definition BLOCK_SECTOR_SIZE :: int where
  "BLOCK_SECTOR_SIZE = 512"

text \<open>The zero byte, and the array \<open>zeros\<close> of inode_create.\<close>

definition NUL :: char where
  "NUL = CHR 0x00"

definition zeros :: "char list" where
  "zeros = replicate 512 NUL"

text \<open>
  Modelled from the spec: block_read, "read(sector, buffer)", as the byte of the sector at a
  position.
\<close>

definition block_read :: "fs \<Rightarrow> block_sector_t \<Rightarrow> nat \<Rightarrow> char" where
  "block_read s sector' i =
     (case disk s sector' of
        Data_blk bs \<Rightarrow> (if i < length bs then bs ! i else NUL)
      | Inode_blk d \<Rightarrow> NUL)"

text \<open>
  Modelled from the spec: block_read, "read(sector, buffer)", into a struct inode_disk.
\<close>

definition block_read_inode :: "fs \<Rightarrow> block_sector_t \<Rightarrow> inode_disk" where
  "block_read_inode s sector' =
     (case disk s sector' of
        Inode_blk d \<Rightarrow> d
      | Data_blk bs \<Rightarrow> \<lparr>start = 0, length_bytes = 0, magic = 0, is_symlink = False\<rparr>)"

text \<open>Modelled from the spec: block_write, "write(sector, buffer)".\<close>

definition block_write :: "block_sector_t \<Rightarrow> block \<Rightarrow> fs \<Rightarrow> fs" where
  "block_write sector' b s = s\<lparr>disk := (disk s)(sector' := b)\<rparr>"

section \<open>Inode layer (inode.c)\<close>

text \<open>
  Modelled from the spec: DIV_ROUND_UP, a macro of lib/round.h, which is not among the
  sources. The spec has \<open>ceil(length/sector_size)\<close> for bytes_to_sectors; the macro is
  \<open>(x + step - 1) / step\<close> with C's division, which is that for the lengths of inodes
  (never negative: inode_create asserts it).
\<close>

definition DIV_ROUND_UP :: "int \<Rightarrow> int \<Rightarrow> int" where
  "DIV_ROUND_UP x step = (x + step - 1) sdiv step"

text \<open>bytes_to_sectors. The conversion of the quotient to \<open>size_t\<close> does not wrap for a
  length that is not negative.\<close>

definition bytes_to_sectors :: "off_t \<Rightarrow> nat" where
  "bytes_to_sectors size' = nat (DIV_ROUND_UP size' BLOCK_SECTOR_SIZE)"

text \<open>byte_to_sector: the result -1 is the largest \<open>block_sector_t\<close>.\<close>

definition byte_to_sector :: "inode \<Rightarrow> off_t \<Rightarrow> block_sector_t" where
  "byte_to_sector ino pos' =
     (if pos' < length_bytes (data ino)
      then start (data ino) + nat (pos' sdiv BLOCK_SECTOR_SIZE)
      else 4294967295)"

text \<open>
  In the functions below the result \<open>None\<close> is a kernel panic (a failed ASSERT) or the fault
  of following a null or dangling pointer.
\<close>

definition inode_create :: "block_sector_t \<Rightarrow> off_t \<Rightarrow> fs \<Rightarrow> (bool \<times> fs) option" where
  "inode_create sector' length' s =
     (if length' < 0 then None
      else case malloc s of
        (None, s1) \<Rightarrow> Some (False, s1)
      | (Some disk_inode_p, s1) \<Rightarrow>
          (let sectors = bytes_to_sectors length';
               disk_inode = \<lparr>start = 0, length_bytes = length', magic = INODE_MAGIC,
                              is_symlink = False\<rparr>
           in case free_map_allocate sectors s1 of
                (None, s2) \<Rightarrow> Some (False, s2)
              | (Some st, s2) \<Rightarrow>
                  Some (True,
                    fold (\<lambda>i. block_write (st + i) (Data_blk zeros)) [0 ..< sectors]
                      (block_write sector' (Inode_blk (disk_inode\<lparr>start := st\<rparr>)) s2))))"

text \<open>inode_reopen.\<close>

definition inode_reopen :: "ptr \<Rightarrow> fs \<Rightarrow> (ptr \<times> fs) option" where
  "inode_reopen p s =
     (case p of
        None \<Rightarrow> Some (None, s)
      | Some a \<Rightarrow>
          (case inodes s a of
             None \<Rightarrow> None
           | Some i \<Rightarrow> Some (Some a, s\<lparr>inodes := (inodes s)(a \<mapsto> i\<lparr>open_cnt := open_cnt i + 1\<rparr>)\<rparr>)))"

text \<open>
  The search loop of inode_open over \<open>open_inodes\<close>: \<open>Some (Some a)\<close> is the first
  inode of the list with the sector, \<open>Some None\<close> the end of the list.
\<close>

fun find_open :: "(nat \<rightharpoonup> inode) \<Rightarrow> block_sector_t \<Rightarrow> nat list \<Rightarrow> ptr option" where
  "find_open h sector' [] = Some None"
| "find_open h sector' (a # as) =
     (case h a of
        None \<Rightarrow> None
      | Some i \<Rightarrow> if sector i = sector' then Some (Some a) else find_open h sector' as)"

definition inode_open :: "block_sector_t \<Rightarrow> fs \<Rightarrow> (ptr \<times> fs) option" where
  "inode_open sector' s =
     (case find_open (inodes s) sector' (open_inodes s) of
        None \<Rightarrow> None
      | Some (Some a) \<Rightarrow> inode_reopen (Some a) s
      | Some None \<Rightarrow>
          (case malloc s of
             (None, s1) \<Rightarrow> Some (None, s1)
           | (Some a, s1) \<Rightarrow>
               Some (Some a,
                 s1\<lparr>open_inodes := a # open_inodes s1,
                    inodes := (inodes s1)(a \<mapsto>
                      \<lparr>sector = sector', open_cnt = 1, removed = False, deny_write_cnt = 0,
                       data = block_read_inode s1 sector'\<rparr>)\<rparr>)))"

definition inode_get_inumber :: "ptr \<Rightarrow> fs \<Rightarrow> block_sector_t option" where
  "inode_get_inumber p s = (case p of None \<Rightarrow> None | Some a \<Rightarrow> map_option sector (inodes s a))"

definition inode_close :: "ptr \<Rightarrow> fs \<Rightarrow> fs option" where
  "inode_close p s =
     (case p of
        None \<Rightarrow> Some s
      | Some a \<Rightarrow>
          (case inodes s a of
             None \<Rightarrow> None
           | Some i \<Rightarrow>
               if open_cnt i - 1 = 0
               then (let s1 = s\<lparr>open_inodes := remove1 a (open_inodes s)\<rparr> in
                     if removed i
                     then (case free_map_release (sector i) 1 s1 of
                             None \<Rightarrow> None
                           | Some s2 \<Rightarrow>
                               (case free_map_release (start (data i))
                                       (bytes_to_sectors (length_bytes (data i))) s2 of
                                  None \<Rightarrow> None
                                | Some s3 \<Rightarrow> Some (s3\<lparr>inodes := (inodes s3)(a := None)\<rparr>)))
                     else Some (s1\<lparr>inodes := (inodes s1)(a := None)\<rparr>))
               else Some (s\<lparr>inodes := (inodes s)(a \<mapsto> i\<lparr>open_cnt := open_cnt i - 1\<rparr>)\<rparr>)))"

definition inode_remove :: "ptr \<Rightarrow> fs \<Rightarrow> fs option" where
  "inode_remove p s =
     (case p of
        None \<Rightarrow> None
      | Some a \<Rightarrow>
          (case inodes s a of
             None \<Rightarrow> None
           | Some i \<Rightarrow> Some (s\<lparr>inodes := (inodes s)(a \<mapsto> i\<lparr>removed := True\<rparr>)\<rparr>)))"

definition inode_length :: "inode \<Rightarrow> off_t" where
  "inode_length ino = length_bytes (data ino)"

text \<open>
  The size of the next chunk, as both loops compute it: the least of the bytes requested, the
  bytes left in the inode and the bytes left in the sector.
\<close>

definition chunk_size :: "inode \<Rightarrow> off_t \<Rightarrow> off_t \<Rightarrow> int" where
  "chunk_size ino size' offset =
     (let sector_ofs = offset smod BLOCK_SECTOR_SIZE;
          inode_left = inode_length ino - offset;
          sector_left = BLOCK_SECTOR_SIZE - sector_ofs;
          min_left = (if inode_left < sector_left then inode_left else sector_left)
      in if size' < min_left then size' else min_left)"

text \<open>
  The loop of inode_read_at. \<open>bounce\<close> tells whether the bounce buffer is allocated;
  \<open>buffer\<close> holds the bytes stored in the caller's buffer so far, \<open>bytes_read\<close> of them.
  A full sector goes straight to the caller's buffer, a part of a sector goes through the
  bounce buffer; both store the bytes \<open>sector_ofs \<dots> sector_ofs + chunk_size - 1\<close> of
  the sector.
\<close>

function inode_read_loop ::
  "inode \<Rightarrow> off_t \<Rightarrow> off_t \<Rightarrow> off_t \<Rightarrow> bool \<Rightarrow> char list \<Rightarrow> fs \<Rightarrow> (off_t \<times> char list) \<times> fs" where
  "inode_read_loop ino size' offset bytes_read bounce buffer s =
     (if size' > 0
      then (if chunk_size ino size' offset \<le> 0 then ((bytes_read, buffer), s)
            else if offset smod BLOCK_SECTOR_SIZE = 0 \<and> chunk_size ino size' offset = BLOCK_SECTOR_SIZE
            then inode_read_loop ino (size' - chunk_size ino size' offset)
                   (offset + chunk_size ino size' offset) (bytes_read + chunk_size ino size' offset)
                   bounce
                   (buffer @ map (block_read s (byte_to_sector ino offset))
                      [0 ..< nat BLOCK_SECTOR_SIZE]) s
            else if \<not> bounce \<and> fst (malloc s) = None then ((bytes_read, buffer), snd (malloc s))
            else inode_read_loop ino (size' - chunk_size ino size' offset)
                   (offset + chunk_size ino size' offset) (bytes_read + chunk_size ino size' offset)
                   True
                   (buffer @ map (block_read s (byte_to_sector ino offset))
                      [nat (offset smod BLOCK_SECTOR_SIZE) ..<
                       nat (offset smod BLOCK_SECTOR_SIZE) + nat (chunk_size ino size' offset)])
                   (if bounce then s else snd (malloc s)))
      else ((bytes_read, buffer), s))"
  by pat_completeness auto
termination
  by (relation "measure (\<lambda>(ino, size', offset, bytes_read, bounce, buffer, s). nat size')") auto

declare inode_read_loop.simps [simp del]

definition inode_read_at :: "ptr \<Rightarrow> off_t \<Rightarrow> off_t \<Rightarrow> fs \<Rightarrow> ((off_t \<times> char list) \<times> fs) option" where
  "inode_read_at p size' offset s =
     (case p of
        None \<Rightarrow> None
      | Some a \<Rightarrow>
          (case inodes s a of
             None \<Rightarrow> None
           | Some ino \<Rightarrow> Some (inode_read_loop ino size' offset 0 False [] s)))"

text \<open>
  The loop of inode_write_at. \<open>buffer\<close> is the caller's memory from the pointer on. The
  sector written is the chunk alone when it fills the sector, else the chunk laid over the
  sector as read from the device, or over zeros when the chunk reaches from the start of the
  sector to its end.
\<close>

definition write_sector :: "fs \<Rightarrow> inode \<Rightarrow> (nat \<Rightarrow> char) \<Rightarrow> off_t \<Rightarrow> off_t \<Rightarrow> off_t \<Rightarrow> char list" where
  "write_sector s ino buffer size' offset bytes_written =
     (let sector_ofs = offset smod BLOCK_SECTOR_SIZE;
          sector_left = BLOCK_SECTOR_SIZE - sector_ofs;
          chunk = chunk_size ino size' offset;
          bounce = (if sector_ofs > 0 \<or> chunk < sector_left
                    then block_read s (byte_to_sector ino offset)
                    else (\<lambda>i. NUL))
      in map (\<lambda>i. if nat sector_ofs \<le> i \<and> i < nat sector_ofs + nat chunk
                   then buffer (nat bytes_written + (i - nat sector_ofs))
                   else bounce i)
           [0 ..< nat BLOCK_SECTOR_SIZE])"

function inode_write_loop ::
  "inode \<Rightarrow> (nat \<Rightarrow> char) \<Rightarrow> off_t \<Rightarrow> off_t \<Rightarrow> off_t \<Rightarrow> bool \<Rightarrow> fs \<Rightarrow> off_t \<times> fs" where
  "inode_write_loop ino buffer size' offset bytes_written bounce s =
     (if size' > 0
      then (if chunk_size ino size' offset \<le> 0 then (bytes_written, s)
            else if offset smod BLOCK_SECTOR_SIZE = 0 \<and> chunk_size ino size' offset = BLOCK_SECTOR_SIZE
            then inode_write_loop ino buffer (size' - chunk_size ino size' offset)
                   (offset + chunk_size ino size' offset)
                   (bytes_written + chunk_size ino size' offset) bounce
                   (block_write (byte_to_sector ino offset)
                      (Data_blk (map (\<lambda>i. buffer (nat bytes_written + i))
                         [0 ..< nat BLOCK_SECTOR_SIZE])) s)
            else if \<not> bounce \<and> fst (malloc s) = None then (bytes_written, snd (malloc s))
            else inode_write_loop ino buffer (size' - chunk_size ino size' offset)
                   (offset + chunk_size ino size' offset)
                   (bytes_written + chunk_size ino size' offset) True
                   (block_write (byte_to_sector ino offset)
                      (Data_blk (write_sector s ino buffer size' offset bytes_written))
                      (if bounce then s else snd (malloc s))))
      else (bytes_written, s))"
  by pat_completeness auto
termination
  by (relation "measure (\<lambda>(ino, buffer, size', offset, bytes_written, bounce, s). nat size')") auto

declare inode_write_loop.simps [simp del]

definition inode_write_at :: "ptr \<Rightarrow> (nat \<Rightarrow> char) \<Rightarrow> off_t \<Rightarrow> off_t \<Rightarrow> fs \<Rightarrow> (off_t \<times> fs) option" where
  "inode_write_at p buffer size' offset s =
     (case p of
        None \<Rightarrow> None
      | Some a \<Rightarrow>
          (case inodes s a of
             None \<Rightarrow> None
           | Some ino \<Rightarrow>
               if deny_write_cnt ino \<noteq> 0 then Some (0, s)
               else Some (inode_write_loop ino buffer size' offset 0 False s)))"

definition inode_deny_write :: "ptr \<Rightarrow> fs \<Rightarrow> fs option" where
  "inode_deny_write p s =
     (case p of
        None \<Rightarrow> None
      | Some a \<Rightarrow>
          (case inodes s a of
             None \<Rightarrow> None
           | Some i \<Rightarrow>
               if deny_write_cnt i + 1 \<le> open_cnt i
               then Some (s\<lparr>inodes := (inodes s)(a \<mapsto> i\<lparr>deny_write_cnt := deny_write_cnt i + 1\<rparr>)\<rparr>)
               else None))"

definition inode_allow_write :: "ptr \<Rightarrow> fs \<Rightarrow> fs option" where
  "inode_allow_write p s =
     (case p of
        None \<Rightarrow> None
      | Some a \<Rightarrow>
          (case inodes s a of
             None \<Rightarrow> None
           | Some i \<Rightarrow>
               if deny_write_cnt i > 0 \<and> deny_write_cnt i \<le> open_cnt i
               then Some (s\<lparr>inodes := (inodes s)(a \<mapsto> i\<lparr>deny_write_cnt := deny_write_cnt i - 1\<rparr>)\<rparr>)
               else None))"

definition inode_get_symlink :: "ptr \<Rightarrow> fs \<Rightarrow> bool option" where
  "inode_get_symlink p s =
     (case p of None \<Rightarrow> None | Some a \<Rightarrow> map_option (\<lambda>i. is_symlink (data i)) (inodes s a))"

definition inode_set_symlink :: "ptr \<Rightarrow> bool \<Rightarrow> fs \<Rightarrow> fs option" where
  "inode_set_symlink p v s =
     (case p of
        None \<Rightarrow> None
      | Some a \<Rightarrow>
          (case inodes s a of
             None \<Rightarrow> None
           | Some i \<Rightarrow>
               (let i' = i\<lparr>data := (data i)\<lparr>is_symlink := v\<rparr>\<rparr>
                in Some (block_write (sector i') (Inode_blk (data i'))
                           (s\<lparr>inodes := (inodes s)(a \<mapsto> i')\<rparr>)))))"

section \<open>File handles (file.c)\<close>

definition file_open :: "ptr \<Rightarrow> fs \<Rightarrow> (ptr \<times> fs) option" where
  "file_open p s =
     (case malloc s of
        (fp, s1) \<Rightarrow>
          (case (p, fp) of
             (Some a, Some f) \<Rightarrow>
               Some (Some f, s1\<lparr>files := (files s1)(f \<mapsto> \<lparr>inode = a, pos = 0, deny_write = False\<rparr>)\<rparr>)
           | _ \<Rightarrow> map_option (Pair None) (inode_close p s1)))"

definition file_reopen :: "ptr \<Rightarrow> fs \<Rightarrow> (ptr \<times> fs) option" where
  "file_reopen fp s =
     (case fp of
        None \<Rightarrow> None
      | Some f \<Rightarrow>
          (case files s f of
             None \<Rightarrow> None
           | Some fl \<Rightarrow>
               (case inode_reopen (Some (inode fl)) s of
                  None \<Rightarrow> None
                | Some (p, s1) \<Rightarrow> file_open p s1)))"


definition file_deny_write :: "ptr \<Rightarrow> fs \<Rightarrow> fs option" where
  "file_deny_write fp s =
     (case fp of
        None \<Rightarrow> None
      | Some f \<Rightarrow>
          (case files s f of
             None \<Rightarrow> None
           | Some fl \<Rightarrow>
               if \<not> deny_write fl
               then inode_deny_write (Some (inode fl))
                      (s\<lparr>files := (files s)(f \<mapsto> fl\<lparr>deny_write := True\<rparr>)\<rparr>)
               else Some s))"

definition file_allow_write :: "ptr \<Rightarrow> fs \<Rightarrow> fs option" where
  "file_allow_write fp s =
     (case fp of
        None \<Rightarrow> None
      | Some f \<Rightarrow>
          (case files s f of
             None \<Rightarrow> None
           | Some fl \<Rightarrow>
               if deny_write fl
               then inode_allow_write (Some (inode fl))
                      (s\<lparr>files := (files s)(f \<mapsto> fl\<lparr>deny_write := False\<rparr>)\<rparr>)
               else Some s))"


section \<open>Example states\<close>

text \<open>
  A mounted file system with the bitmap \<open>b\<close> and the environment \<open>e\<close>: the free-map
  file is open on the inode of sector 0. \<open>formatting\<close> is the state in which do_format
  allocates, before the free-map file exists.
\<close>

definition mounted :: "bitmap \<Rightarrow> bool list \<Rightarrow> fs" where
  "mounted b e = \<lparr>free_map = b, free_map_file = Some 0, persisted = b, open_inodes = [1],
     inodes = [1 \<mapsto> \<lparr>sector = FREE_MAP_SECTOR, open_cnt = 1, removed = False, deny_write_cnt = 0,
                       data = \<lparr>start = 2, length_bytes = 1, magic = INODE_MAGIC, is_symlink = False\<rparr>\<rparr>],
     files = [0 \<mapsto> \<lparr>inode = 1, pos = 0, deny_write = False\<rparr>],
     disk = (\<lambda>_. Data_blk zeros), brk = 2, env = e, dir_entries = []\<rparr>"

definition formatting :: fs where
  "formatting = (mounted [True, True, False, False] []) \<lparr>free_map_file := None, open_inodes := [],
     inodes := Map.empty, files := Map.empty, brk := 0\<rparr>"

section \<open>Invariant of the inode cache\<close>

text \<open>
  \<open>cache_ok\<close>: every address in \<open>open_inodes\<close> was handed out by malloc and holds an
  inode, and no two of them hold inodes of the same sector. \<open>frame s s'\<close>: \<open>s'\<close>
  differs from \<open>s\<close> at most in the device, the environment and the addresses handed out.
\<close>

definition cache_ok :: "fs \<Rightarrow> bool" where
  "cache_ok s \<longleftrightarrow>
     (\<forall>a \<in> set (open_inodes s). a < brk s \<and> inodes s a \<noteq> None) \<and>
     distinct (map (\<lambda>a. map_option sector (inodes s a)) (open_inodes s))"

definition frame :: "fs \<Rightarrow> fs \<Rightarrow> bool" where
  "frame s s' \<longleftrightarrow>
     free_map s' = free_map s \<and> free_map_file s' = free_map_file s \<and>
     persisted s' = persisted s \<and> open_inodes s' = open_inodes s \<and>
     inodes s' = inodes s \<and> files s' = files s \<and> dir_entries s' = dir_entries s \<and>
     brk s \<le> brk s'"

section \<open>Transfer counts\<close>

text \<open>
  What the loops of inode_read_at and inode_write_at return, from any point of the loop on:
  the bytes transferred so far plus at most the least of the bytes requested and the bytes left
  in the inode, and exactly that when the bounce buffer is there or its allocation succeeds.
\<close>

definition read_count_ok :: "inode \<Rightarrow> int \<Rightarrow> int \<Rightarrow> int \<Rightarrow> bool \<Rightarrow> char list \<Rightarrow> fs \<Rightarrow> (int \<times> char list) \<Rightarrow> bool" where
  "read_count_ok ino n ofs br bounce buf s r \<longleftrightarrow>
     br \<le> fst r \<and> fst r \<le> br + max 0 (min n (inode_length ino - ofs)) \<and>
     int (length (snd r)) = int (length buf) + (fst r - br) \<and>
     (bounce \<or> env_ok s \<longrightarrow> fst r = br + max 0 (min n (inode_length ino - ofs)))"

definition write_count_ok :: "inode \<Rightarrow> int \<Rightarrow> int \<Rightarrow> int \<Rightarrow> bool \<Rightarrow> fs \<Rightarrow> int \<Rightarrow> bool" where
  "write_count_ok ino n ofs bw bounce s r \<longleftrightarrow>
     bw \<le> r \<and> r \<le> bw + max 0 (min n (inode_length ino - ofs)) \<and>
     (bounce \<or> env_ok s \<longrightarrow> r = bw + max 0 (min n (inode_length ino - ofs)))"

text \<open>
  \<open>example_fs len e\<close>: a mounted file system in which the file \<open>a\<close>, of \<open>len\<close>
  bytes (at most 1024) with its inode in sector 3 and its data in sectors 4 and 5, is open
  once.
\<close>

definition example_fs :: "off_t \<Rightarrow> bool list \<Rightarrow> fs" where
  "example_fs len e =
     (mounted [True, True, True, True, True, True, False, False] e)
       \<lparr>open_inodes := [3, 1],
        inodes := [1 \<mapsto> \<lparr>sector = FREE_MAP_SECTOR, open_cnt = 1, removed = False,
                           deny_write_cnt = 0,
                           data = \<lparr>start = 2, length_bytes = 1, magic = INODE_MAGIC,
                                   is_symlink = False\<rparr>\<rparr>,
                   3 \<mapsto> \<lparr>sector = 3, open_cnt = 1, removed = False, deny_write_cnt = 0,
                           data = \<lparr>start = 4, length_bytes = len, magic = INODE_MAGIC,
                                   is_symlink = False\<rparr>\<rparr>],
        files := [0 \<mapsto> \<lparr>inode = 1, pos = 0, deny_write = False\<rparr>,
                  2 \<mapsto> \<lparr>inode = 3, pos = 0, deny_write = False\<rparr>],
        disk := (\<lambda>sec. if sec = 3
                   then Inode_blk \<lparr>start = 4, length_bytes = len, magic = INODE_MAGIC,
                                   is_symlink = False\<rparr>
                   else Data_blk zeros),
        brk := 4,
        dir_entries := [(''a'', 3)]\<rparr>"

section \<open>Directory module\<close>

text \<open>
  directory.c and directory.h are not among the sources: the directory module is modelled from
  the spec, where it is external, with \<open>open_path(path) -> directory_or_null\<close>,
  \<open>lookup(directory, name) -> inode_or_not_found\<close> and \<open>add(directory, name,
  inode_sector)\<close>. The model has the root directory only (no operation of the sources makes
  another one: the mkdir system call is disabled), with its entries in \<open>dir_entries\<close>; an
  open directory is the pointer to its open inode.
\<close>

text \<open>
  Modelled from the spec: NAME_MAX, a constant of directory.h. The spec gives no value; 14 is
  the one for which \<open>NAME_MAX + 1\<close>, the number of bytes filesys_symlink writes and
  filesys_open reads, is the 15 bytes filesys_symlink creates the link with.
\<close>

definition NAME_MAX :: int where
  "NAME_MAX = 14"

text \<open>
  Modelled from the spec: split_path_filename splits a path "into (directory-path,
  leaf-name)", at its last \<open>/\<close>. The sizes of the arrays that receive the two parts are
  not modelled.
\<close>

definition split_path_filename :: "string \<Rightarrow> string \<times> string" where
  "split_path_filename name =
     (rev (dropWhile (\<lambda>c. c \<noteq> CHR ''/'') (rev name)),
      rev (takeWhile (\<lambda>c. c \<noteq> CHR ''/'') (rev name)))"

text \<open>
  Modelled from the spec: dir_open_path, \<open>open_path(path) -> directory_or_null\<close>. The
  empty directory path and \<open>/\<close> are the root directory; no other directory exists.
\<close>

definition dir_open_path :: "string \<Rightarrow> fs \<Rightarrow> (ptr \<times> fs) option" where
  "dir_open_path directory s =
     (if directory = [] \<or> directory = ''/'' then inode_open ROOT_DIR_SECTOR s
      else Some (None, s))"

text \<open>
  Modelled from the spec: dir_lookup, \<open>lookup(directory, name) -> inode_or_not_found\<close>,
  which opens the inode of the entry found.
\<close>

definition dir_lookup :: "ptr \<Rightarrow> string \<Rightarrow> fs \<Rightarrow> (ptr \<times> fs) option" where
  "dir_lookup dir name s =
     (case map_of (dir_entries s) name of
        None \<Rightarrow> Some (None, s)
      | Some sector' \<Rightarrow> inode_open sector' s)"

text \<open>
  Modelled from the spec: dir_add, \<open>add(directory, name, inode_sector)\<close>; "duplicate
  names" are "reported as failure from open/create".
\<close>

definition dir_add :: "ptr \<Rightarrow> string \<Rightarrow> block_sector_t \<Rightarrow> fs \<Rightarrow> bool \<times> fs" where
  "dir_add dir name sector' s =
     (if map_of (dir_entries s) name \<noteq> None then (False, s)
      else (True, s\<lparr>dir_entries := dir_entries s @ [(name, sector')]\<rparr>))"

text \<open>Modelled from the spec: dir_close closes the inode of the directory.\<close>

definition dir_close :: "ptr \<Rightarrow> fs \<Rightarrow> fs option" where
  "dir_close dir s = inode_close dir s"

text \<open>Modelled from the spec: dir_get_inode, the inode of an open directory ("its inode is
  used directly").\<close>

definition dir_get_inode :: "ptr \<Rightarrow> ptr" where
  "dir_get_inode dir = dir"

section \<open>File system (filesys.c)\<close>

text \<open>
  filesys_create. inode_create is the one of the contiguous variant, which takes no
  \<open>is_dir\<close>. The pair computed first is \<open>success\<close> and \<open>inode_sector\<close> (0 until
  free_map_allocate has stored a sector in it), following the chain of \<open>&&\<close>.
\<close>

definition filesys_create :: "string \<Rightarrow> off_t \<Rightarrow> bool \<Rightarrow> fs \<Rightarrow> (bool \<times> fs) option" where
  "filesys_create name initial_size is_dir s =
     (case split_path_filename name of
        (directory, file_name) \<Rightarrow>
          (case dir_open_path directory s of
             None \<Rightarrow> None
           | Some (dir, s1) \<Rightarrow>
               (case (if dir = None then Some ((False, 0), s1)
                      else (case free_map_allocate 1 s1 of
                              (None, s2) \<Rightarrow> Some ((False, 0), s2)
                            | (Some inode_sector, s2) \<Rightarrow>
                                (case inode_create inode_sector initial_size s2 of
                                   None \<Rightarrow> None
                                 | Some (False, s3) \<Rightarrow> Some ((False, inode_sector), s3)
                                 | Some (True, s3) \<Rightarrow>
                                     (case dir_add dir file_name inode_sector s3 of
                                        (ok, s4) \<Rightarrow> Some ((ok, inode_sector), s4))))) of
                  None \<Rightarrow> None
                | Some ((success, inode_sector), s5) \<Rightarrow>
                    (case (if \<not> success \<and> inode_sector \<noteq> 0
                           then free_map_release inode_sector 1 s5 else Some s5) of
                       None \<Rightarrow> None
                     | Some s6 \<Rightarrow> map_option (Pair success) (dir_close dir s6)))))"

text \<open>
  Modelled from the spec: inode_is_removed, which stands in inode.c as a comment only
  (\<open>return inode->removed;\<close>); the spec has "a result whose inode has been marked removed is
  treated as not-found".
\<close>

definition inode_is_removed :: "ptr \<Rightarrow> fs \<Rightarrow> bool option" where
  "inode_is_removed p s =
     (case p of None \<Rightarrow> None | Some a \<Rightarrow> map_option removed (inodes s a))"

text \<open>
  filesys_open calls itself on the target of a symbolic link, with no bound on the number of
  links followed: the outer \<open>None\<close> is a call that does not return, \<open>Some None\<close> a panic
  or fault, \<open>Some (Some (f, s))\<close> the result \<open>f\<close> (NULL or a file) in the state \<open>s\<close>.
  The array \<open>target\<close> receives the bytes read from the link; the path it holds ends before
  the first NUL, and a path that runs past the bytes read is a fault.
\<close>

partial_function (option) filesys_open :: "string \<Rightarrow> fs \<Rightarrow> (ptr \<times> fs) option option" where
  "filesys_open name s =
     (if length name = 0 then Some (Some (None, s))
      else (case dir_open_path (fst (split_path_filename name)) s of
              None \<Rightarrow> Some None
            | Some (dir, s1) \<Rightarrow>
                if dir = None then Some (Some (None, s1))
                else (case (if length (snd (split_path_filename name)) > 0
                            then (case dir_lookup dir (snd (split_path_filename name)) s1 of
                                    None \<Rightarrow> None
                                  | Some (ino, s2) \<Rightarrow> map_option (Pair ino) (dir_close dir s2))
                            else Some (dir_get_inode dir, s1)) of
                        None \<Rightarrow> Some None
                      | Some (ino, s3) \<Rightarrow>
                          if ino = None then Some (Some (None, s3))
                          else (case inode_is_removed ino s3 of
                                  None \<Rightarrow> Some None
                                | Some rm \<Rightarrow>
                                    if rm then Some (Some (None, s3))
                                    else (case inode_get_symlink ino s3 of
                                            None \<Rightarrow> Some None
                                          | Some sl \<Rightarrow>
                                              if sl
                                              then (case inode_read_at ino (NAME_MAX + 1) 0 s3 of
                                                      None \<Rightarrow> Some None
                                                    | Some (r, s4) \<Rightarrow>
                                                        if NUL \<in> set (snd r)
                                                        then filesys_open
                                                               (takeWhile (\<lambda>c. c \<noteq> NUL) (snd r)) s4
                                                        else Some None)
                                              else Some (file_open ino s3))))))"


section \<open>States for the properties of symbolic links\<close>




section \<open>Properties of the bitmap and the free map\<close>

lemma length_bitmap_set_multiple [simp]:
  "length (bitmap_set_multiple b st cnt v) = length b"
  by (induction cnt arbitrary: b st) auto

lemma nth_bitmap_set_multiple:
  "k < length b \<Longrightarrow> bitmap_set_multiple b st cnt v ! k = (if st \<le> k \<and> k < st + cnt then v else b ! k)"
  by (induction cnt arbitrary: b st) (auto simp: nth_list_update)

lemma bitmap_contains_iff:
  "bitmap_contains b st cnt v \<longleftrightarrow> (\<exists>j<cnt. b ! (st + j) = v)"
proof -
  have "(\<exists>i\<in>{st..<st + cnt}. b ! i = v) \<longleftrightarrow> (\<exists>j<cnt. b ! (st + j) = v)"
  proof
    assume "\<exists>i\<in>{st..<st + cnt}. b ! i = v"
    then obtain i where "st \<le> i" "i < st + cnt" "b ! i = v" by auto
    then have "i - st < cnt" "b ! (st + (i - st)) = v" by auto
    then show "\<exists>j<cnt. b ! (st + j) = v" by blast
  next
    assume "\<exists>j<cnt. b ! (st + j) = v"
    then show "\<exists>i\<in>{st..<st + cnt}. b ! i = v" by auto
  qed
  then show ?thesis by (simp add: bitmap_contains_def list_ex_iff)
qed

lemma find_SomeD: "find P xs = Some x \<Longrightarrow> x \<in> set xs \<and> P x"
  by (induction xs) (auto split: if_splits)

lemma bitmap_scan_Some:
  assumes "bitmap_scan b st cnt v = Some i"
  shows "i + cnt \<le> length b \<and> st \<le> i \<and> (\<forall>j<cnt. b ! (i + j) = v)"
proof -
  from assms have c: "cnt \<le> length b"
    and f: "find (\<lambda>i. \<not> bitmap_contains b i cnt (\<not> v)) [st ..< Suc (length b - cnt)] = Some i"
    by (auto simp: bitmap_scan_def split: if_splits)
  from find_SomeD [OF f]
  have "i \<in> set [st ..< Suc (length b - cnt)]" "\<not> bitmap_contains b i cnt (\<not> v)"
    by blast+
  with c show ?thesis by (auto simp: bitmap_contains_iff simp del: upt_Suc)
qed

lemma bitmap_scan_None:
  assumes "bitmap_scan b st cnt v = None" "st \<le> i" "i + cnt \<le> length b"
  shows "\<exists>j<cnt. b ! (i + j) \<noteq> v"
proof -
  from assms have "find (\<lambda>i. \<not> bitmap_contains b i cnt (\<not> v)) [st ..< Suc (length b - cnt)] = None"
    by (auto simp: bitmap_scan_def split: if_splits)
  moreover from assms have "i \<in> set [st ..< Suc (length b - cnt)]" by auto
  ultimately have "bitmap_contains b i cnt (\<not> v)" by (auto simp: find_None_iff)
  then show ?thesis by (auto simp: bitmap_contains_iff)
qed

lemma bitmap_set_multiple_undo:
  assumes "i + cnt \<le> length b" "\<forall>j<cnt. b ! (i + j) = v"
  shows "bitmap_set_multiple (bitmap_set_multiple b i cnt w) i cnt v = b"
proof (rule nth_equalityI)
  show "length (bitmap_set_multiple (bitmap_set_multiple b i cnt w) i cnt v) = length b" by simp
next
  fix k assume "k < length (bitmap_set_multiple (bitmap_set_multiple b i cnt w) i cnt v)"
  then have k: "k < length b" by simp
  show "bitmap_set_multiple (bitmap_set_multiple b i cnt w) i cnt v ! k = b ! k"
  proof (cases "i \<le> k \<and> k < i + cnt")
    case True
    then have "k - i < cnt" "i + (k - i) = k" by auto
    with assms(2) have "b ! k = v" by metis
    with True k show ?thesis by (simp add: nth_bitmap_set_multiple)
  next
    case False
    with k show ?thesis by (auto simp add: nth_bitmap_set_multiple)
  qed
qed

lemma bitmap_all_set_multiple:
  assumes "i + cnt \<le> length b"
  shows "bitmap_all (bitmap_set_multiple b i cnt True) i cnt"
  using assms by (auto simp: bitmap_all_def bitmap_contains_iff nth_bitmap_set_multiple)

lemma env_next_eq: "env_next s = (env_ok s, s\<lparr>env := tl (env s)\<rparr>)"
  by (cases "env s") (auto simp: env_next_def env_ok_def)

lemma env_ok_upd [simp]:
  "env_ok (s\<lparr>free_map := b\<rparr>) = env_ok s"
  by (auto simp: env_next_def env_ok_def split: list.splits)

lemma bitmap_write_eq:
  "bitmap_write s = (env_ok s, if env_ok s then s\<lparr>persisted := free_map s, env := tl (env s)\<rparr>
                               else s\<lparr>env := tl (env s)\<rparr>)"
  by (auto simp: bitmap_write_def env_next_eq)

lemma free_map_allocate_none:
  assumes "bitmap_scan (free_map s) 0 cnt False = None"
  shows "free_map_allocate cnt s = (None, s)"
  using assms by (simp add: free_map_allocate_def bitmap_scan_and_flip_def)

lemma free_map_allocate_nofile:
  assumes "bitmap_scan (free_map s) 0 cnt False = Some sec" "free_map_file s = None"
  shows "free_map_allocate cnt s = (Some sec, s\<lparr>free_map := bitmap_set_multiple (free_map s) sec cnt True\<rparr>)"
  using assms by (simp add: free_map_allocate_def bitmap_scan_and_flip_def)

lemma free_map_allocate_ok:
  assumes "bitmap_scan (free_map s) 0 cnt False = Some sec" "free_map_file s \<noteq> None" "env_ok s"
  shows "free_map_allocate cnt s =
           (Some sec, s\<lparr>free_map := bitmap_set_multiple (free_map s) sec cnt True,
                         persisted := bitmap_set_multiple (free_map s) sec cnt True,
                         env := tl (env s)\<rparr>)"
  using assms by (simp add: free_map_allocate_def bitmap_scan_and_flip_def bitmap_write_eq)

lemma free_map_allocate_fail:
  assumes "bitmap_scan (free_map s) 0 cnt False = Some sec" "free_map_file s \<noteq> None" "\<not> env_ok s"
  shows "free_map_allocate cnt s = (None, s\<lparr>env := tl (env s)\<rparr>)"
proof -
  from bitmap_scan_Some [OF assms(1)]
  have "bitmap_set_multiple (bitmap_set_multiple (free_map s) sec cnt True) sec cnt False = free_map s"
    by (intro bitmap_set_multiple_undo) auto
  with assms show ?thesis
    by (simp add: free_map_allocate_def bitmap_scan_and_flip_def bitmap_write_eq)
qed

lemma free_map_release_eq:
  "free_map_release sec cnt s =
     (if bitmap_all (free_map s) sec cnt \<and> free_map_file s \<noteq> None
      then Some (if env_ok s
                 then s\<lparr>free_map := bitmap_set_multiple (free_map s) sec cnt False,
                        persisted := bitmap_set_multiple (free_map s) sec cnt False,
                        env := tl (env s)\<rparr>
                 else s\<lparr>free_map := bitmap_set_multiple (free_map s) sec cnt False,
                        env := tl (env s)\<rparr>)
      else None)"
  by (simp add: free_map_release_def bitmap_write_eq Let_def)

text \<open>
  Claim C4, amended. While the free-map file is open, free_map_allocate is all-or-nothing:
  when it succeeds the write of the bitmap succeeded, the stored copy equals the bitmap in
  memory, and the bits of the run are set; when the write fails the call fails and the bitmap
  in memory is as before the call, as after every failed call. A free_map_release whose write
  succeeds leaves the stored copy equal to the bitmap in memory, the run cleared.
\<close>

theorem free_map_durability:
  assumes "free_map_file s \<noteq> None"
  shows "(\<forall>sec s'. free_map_allocate cnt s = (Some sec, s') \<longrightarrow>
            env_ok s \<and> persisted s' = free_map s' \<and>
            free_map s' = bitmap_set_multiple (free_map s) sec cnt True)
       \<and> (\<not> env_ok s \<longrightarrow> (\<exists>s'. free_map_allocate cnt s = (None, s') \<and> free_map s' = free_map s))
       \<and> (\<forall>s'. free_map_allocate cnt s = (None, s') \<longrightarrow> free_map s' = free_map s)
       \<and> (\<forall>s'. free_map_release sec0 n s = Some s' \<and> env_ok s \<longrightarrow>
            persisted s' = free_map s' \<and>
            free_map s' = bitmap_set_multiple (free_map s) sec0 n False)"
proof (cases "bitmap_scan (free_map s) 0 cnt False")
  case None
  from free_map_allocate_none [OF None] show ?thesis
    by (auto simp: free_map_release_eq split: if_splits)
next
  case (Some sec)
  show ?thesis
  proof (cases "env_ok s")
    case True
    from free_map_allocate_ok [OF Some assms True] True show ?thesis
      by (auto simp: free_map_release_eq split: if_splits)
  next
    case False
    from free_map_allocate_fail [OF Some assms False] False show ?thesis
      by (auto simp: free_map_release_eq split: if_splits)
  qed
qed

lemma mounted_simps [simp]:
  "free_map (mounted b e) = b" "free_map_file (mounted b e) = Some 0"
  "persisted (mounted b e) = b" "env (mounted b e) = e"
  by (simp_all add: mounted_def)

theorem free_map_durability_witness:
  "free_map_file (mounted [True, True, False, False] []) \<noteq> None
   \<and> fst (free_map_allocate 1 (mounted [True, True, False, False] [])) = Some 2
   \<and> persisted (snd (free_map_allocate 1 (mounted [True, True, False, False] [])))
       = [True, True, True, False]
   \<and> free_map (snd (free_map_allocate 1 (mounted [True, True, False, False] [])))
       = [True, True, True, False]
   \<and> fst (free_map_allocate 1 (mounted [True, True, False, False] [False])) = None
   \<and> free_map (snd (free_map_allocate 1 (mounted [True, True, False, False] [False])))
       = [True, True, False, False]"
proof -
  let ?s = "mounted [True, True, False, False] []"
  let ?t = "mounted [True, True, False, False] [False]"
  have f: "free_map_file ?s \<noteq> None" "free_map_file ?t \<noteq> None" by simp_all
  have sc: "bitmap_scan [True, True, False, False] 0 1 False = Some 2"
    by (simp add: bitmap_scan_def bitmap_contains_def)
  have a: "fst (free_map_allocate 1 ?s) = Some 2"
    using free_map_allocate_ok [of ?s 1 2] sc by (simp add: env_ok_def env_next_def)
  have nt: "\<not> env_ok ?t" by (simp add: env_ok_def env_next_def)
  from free_map_durability [OF f(1), of 1] a
  have "persisted (snd (free_map_allocate 1 ?s)) = free_map (snd (free_map_allocate 1 ?s))"
    "free_map (snd (free_map_allocate 1 ?s)) = bitmap_set_multiple (free_map ?s) 2 1 True"
    by (metis prod.collapse)+
  moreover from free_map_durability [OF f(2), of 1] nt
  have "fst (free_map_allocate 1 ?t) = None" "free_map (snd (free_map_allocate 1 ?t)) = free_map ?t"
    by auto
  ultimately show ?thesis using a by simp
qed

text \<open>
  Claim C4 as stated fails while no free-map file is open (the guard
  \<open>free_map_file != NULL\<close> of free_map_allocate): the call succeeds, and the stored copy
  does not have the bit.
\<close>

theorem free_map_allocate_unpersisted:
  "fst (free_map_allocate 1 formatting) = Some 2
   \<and> free_map (snd (free_map_allocate 1 formatting)) = [True, True, True, False]
   \<and> persisted (snd (free_map_allocate 1 formatting)) = [True, True, False, False]"
proof -
  have sc: "bitmap_scan [True, True, False, False] 0 1 False = Some 2"
    by (simp add: bitmap_scan_def bitmap_contains_def)
  have "free_map formatting = [True, True, False, False]" "free_map_file formatting = None"
    "persisted formatting = [True, True, False, False]"
    by (simp_all add: formatting_def)
  with free_map_allocate_nofile [of formatting 1 2] sc show ?thesis
    by simp
qed

text \<open>
  Claim C6, amended. When the free map has \<open>cnt\<close> consecutive clear bits somewhere (here
  at \<open>i\<close>), its file is open and the write of the bitmap succeeds, free_map_allocate
  succeeds with the first such run, and free_map_release of that run right after restores
  the bitmap in memory bit for bit.
\<close>

theorem free_map_allocate_release:
  assumes run: "i + cnt \<le> length (free_map s)" "\<forall>j<cnt. \<not> free_map s ! (i + j)"
    and fl: "free_map_file s \<noteq> None" and ok: "env_ok s"
  shows "\<exists>sec s' s''. free_map_allocate cnt s = (Some sec, s') \<and> sec \<le> i
           \<and> free_map s' = bitmap_set_multiple (free_map s) sec cnt True
           \<and> free_map_release sec cnt s' = Some s'' \<and> free_map s'' = free_map s"
proof (cases "bitmap_scan (free_map s) 0 cnt False")
  case None
  from bitmap_scan_None [OF None _ run(1)] run(2) show ?thesis by auto
next
  case (Some sec)
  note sc = bitmap_scan_Some [OF Some]
  let ?b = "bitmap_set_multiple (free_map s) sec cnt True"
  let ?s' = "s\<lparr>free_map := ?b, persisted := ?b, env := tl (env s)\<rparr>"
  have a: "free_map_allocate cnt s = (Some sec, ?s')"
    by (rule free_map_allocate_ok [OF Some fl ok])
  have le: "sec \<le> i"
  proof (rule ccontr)
    assume "\<not> sec \<le> i"
    then have "i < sec" by simp
    from Some have c: "cnt \<le> length (free_map s)"
      and f: "find (\<lambda>k. \<not> bitmap_contains (free_map s) k cnt (\<not> False))
                [0 ..< Suc (length (free_map s) - cnt)] = Some sec"
      by (auto simp: bitmap_scan_def split: if_splits)
    from f obtain n where n: "n < length [0 ..< Suc (length (free_map s) - cnt)]"
      "[0 ..< Suc (length (free_map s) - cnt)] ! n = sec"
      "\<forall>m<n. \<not> \<not> bitmap_contains (free_map s) ([0 ..< Suc (length (free_map s) - cnt)] ! m) cnt (\<not> False)"
      unfolding find_Some_iff by blast
    from n(1,2) have "n = sec" by (metis add_0 length_upt nth_upt minus_nat.diff_0)
    with n(3) \<open>i < sec\<close> n(1) have "bitmap_contains (free_map s) ([0 ..< Suc (length (free_map s) - cnt)] ! i) cnt True"
      by simp
    moreover from \<open>i < sec\<close> \<open>n = sec\<close> n(1) have "[0 ..< Suc (length (free_map s) - cnt)] ! i = i"
      by (metis add_0 length_upt nth_upt minus_nat.diff_0 less_trans)
    ultimately have "bitmap_contains (free_map s) i cnt True" by simp
    with run(2) show False by (auto simp: bitmap_contains_iff)
  qed
  have all: "bitmap_all ?b sec cnt"
    using sc by (intro bitmap_all_set_multiple) simp
  have undo: "bitmap_set_multiple ?b sec cnt False = free_map s"
    using sc by (intro bitmap_set_multiple_undo) auto
  from all fl undo
  have "\<exists>s''. free_map_release sec cnt ?s' = Some s'' \<and> free_map s'' = free_map s"
    by (simp add: free_map_release_eq)
  with a le show ?thesis by auto
qed

theorem free_map_allocate_release_witness:
  "2 + 2 \<le> length (free_map (mounted [True, True, False, False] []))
   \<and> \<not> free_map (mounted [True, True, False, False] []) ! 2
   \<and> \<not> free_map (mounted [True, True, False, False] []) ! 3
   \<and> free_map_file (mounted [True, True, False, False] []) \<noteq> None
   \<and> env_ok (mounted [True, True, False, False] [])
   \<and> (\<exists>sec s' s''. free_map_allocate 2 (mounted [True, True, False, False] []) = (Some sec, s')
         \<and> free_map_release sec 2 s' = Some s'' \<and> free_map s'' = [True, True, False, False])"
proof -
  let ?s = "mounted [True, True, False, False] []"
  have h: "2 + 2 \<le> length (free_map ?s)" "\<forall>j<2. \<not> free_map ?s ! (2 + j)"
    "free_map_file ?s \<noteq> None" "env_ok ?s"
    by (simp_all add: env_ok_def env_next_def nth_Cons' less_Suc_eq numeral_2_eq_2)
  have "\<not> free_map ?s ! 2" "\<not> free_map ?s ! 3" by simp_all
  with free_map_allocate_release [OF h] h show ?thesis by (simp del: One_nat_def) blast
qed

text \<open>
  Claim C6 as stated fails on a fragmented map: two bits are clear, no two of them are
  consecutive, and an allocation of two sectors fails.
\<close>

theorem free_map_allocate_fragmented:
  "length (filter Not (free_map (mounted [True, True, False, True, False] []))) = 2
   \<and> fst (free_map_allocate 2 (mounted [True, True, False, True, False] [])) = None"
proof -
  have "bitmap_scan [True, True, False, True, False] 0 2 False = None"
    by (simp add: bitmap_scan_def bitmap_contains_def)
  with free_map_allocate_none [of "mounted [True, True, False, True, False] []" 2]
  show ?thesis by simp
qed

section \<open>Properties of the file handles\<close>

lemma inode_deny_write_Some:
  "inode_deny_write p s = Some s1 \<longleftrightarrow>
     (\<exists>a i. p = Some a \<and> inodes s a = Some i \<and> deny_write_cnt i + 1 \<le> open_cnt i \<and>
            s1 = s\<lparr>inodes := (inodes s)(a \<mapsto> i\<lparr>deny_write_cnt := deny_write_cnt i + 1\<rparr>)\<rparr>)"
  by (auto simp: inode_deny_write_def split: option.splits)

lemma inode_allow_write_Some:
  "inode_allow_write p s = Some s1 \<longleftrightarrow>
     (\<exists>a i. p = Some a \<and> inodes s a = Some i \<and> deny_write_cnt i > 0 \<and> deny_write_cnt i \<le> open_cnt i \<and>
            s1 = s\<lparr>inodes := (inodes s)(a \<mapsto> i\<lparr>deny_write_cnt := deny_write_cnt i - 1\<rparr>)\<rparr>)"
  by (auto simp: inode_allow_write_def split: option.splits)

text \<open>
  Claim C9. A file_deny_write that returns leaves a state on which a second file_deny_write
  changes nothing; it sets the flag of the handle, and adds one to the deny-write count of the
  inode exactly when the flag was clear before (otherwise the state is unchanged). Likewise
  file_allow_write: a second call changes nothing, and the count drops by one exactly when the
  flag was set before.
\<close>

theorem file_deny_write_idempotent:
  "(file_deny_write fp s = Some s1 \<longrightarrow>
      file_deny_write fp s1 = Some s1 \<and>
      (\<exists>f fl. fp = Some f \<and> files s f = Some fl \<and> files s1 f = Some (fl\<lparr>deny_write := True\<rparr>) \<and>
         (if deny_write fl then s1 = s
          else \<exists>i. inodes s (inode fl) = Some i \<and>
                   inodes s1 (inode fl) = Some (i\<lparr>deny_write_cnt := deny_write_cnt i + 1\<rparr>))))
   \<and> (file_allow_write fp s = Some s1 \<longrightarrow>
      file_allow_write fp s1 = Some s1 \<and>
      (\<exists>f fl. fp = Some f \<and> files s f = Some fl \<and> files s1 f = Some (fl\<lparr>deny_write := False\<rparr>) \<and>
         (if deny_write fl
          then \<exists>i. inodes s (inode fl) = Some i \<and>
                   inodes s1 (inode fl) = Some (i\<lparr>deny_write_cnt := deny_write_cnt i - 1\<rparr>)
          else s1 = s)))"
proof (intro conjI impI)
  assume d: "file_deny_write fp s = Some s1"
  then obtain f fl where f: "fp = Some f" "files s f = Some fl"
    by (auto simp: file_deny_write_def split: option.splits)
  show "file_deny_write fp s1 = Some s1"
    using d f by (auto simp: file_deny_write_def inode_deny_write_Some split: if_splits)
  show "\<exists>f fl. fp = Some f \<and> files s f = Some fl \<and> files s1 f = Some (fl\<lparr>deny_write := True\<rparr>) \<and>
         (if deny_write fl then s1 = s
          else \<exists>i. inodes s (inode fl) = Some i \<and>
                   inodes s1 (inode fl) = Some (i\<lparr>deny_write_cnt := deny_write_cnt i + 1\<rparr>))"
    using d f by (auto simp: file_deny_write_def inode_deny_write_Some split: if_splits)
next
  assume d: "file_allow_write fp s = Some s1"
  then obtain f fl where f: "fp = Some f" "files s f = Some fl"
    by (auto simp: file_allow_write_def split: option.splits)
  show "file_allow_write fp s1 = Some s1"
    using d f by (auto simp: file_allow_write_def inode_allow_write_Some split: if_splits)
  show "\<exists>f fl. fp = Some f \<and> files s f = Some fl \<and> files s1 f = Some (fl\<lparr>deny_write := False\<rparr>) \<and>
         (if deny_write fl
          then \<exists>i. inodes s (inode fl) = Some i \<and>
                   inodes s1 (inode fl) = Some (i\<lparr>deny_write_cnt := deny_write_cnt i - 1\<rparr>)
          else s1 = s)"
    using d f by (auto simp: file_allow_write_def inode_allow_write_Some split: if_splits)
qed

theorem file_deny_write_idempotent_witness:
  "\<exists>s1 s2. file_deny_write (Some 0) (mounted [True, True, True] []) = Some s1
     \<and> file_deny_write (Some 0) s1 = Some s1
     \<and> map_option deny_write_cnt (inodes s1 1) = Some 1
     \<and> file_allow_write (Some 0) s1 = Some s2
     \<and> file_allow_write (Some 0) s2 = Some s2
     \<and> map_option deny_write_cnt (inodes s2 1) = Some 0"
proof -
  let ?m = "mounted [True, True, True] []"
  obtain s1 where s1: "file_deny_write (Some 0) ?m = Some s1"
    by (simp add: file_deny_write_def inode_deny_write_def mounted_def)
  from file_deny_write_idempotent [of "Some 0" ?m s1] s1
  have a: "file_deny_write (Some 0) s1 = Some s1"
    "files s1 0 = Some \<lparr>inode = 1, pos = 0, deny_write = True\<rparr>"
    "map_option deny_write_cnt (inodes s1 1) = Some 1"
    by (auto simp: mounted_def)
  have "open_cnt (the (inodes s1 1)) = 1"
    using s1 by (auto simp: file_deny_write_def inode_deny_write_def mounted_def)
  with a obtain s2 where s2: "file_allow_write (Some 0) s1 = Some s2"
    by (auto simp: file_allow_write_def inode_allow_write_def)
  from file_deny_write_idempotent [of "Some 0" s1 s2] s2 a
  have "file_allow_write (Some 0) s2 = Some s2"
    "map_option deny_write_cnt (inodes s2 1) = Some 0"
    by auto
  with s1 a s2 show ?thesis by blast
qed

section \<open>Properties of the inode cache\<close>

lemma malloc_eq:
  "malloc s = (if env_ok s then (Some (brk s), s\<lparr>brk := Suc (brk s), env := tl (env s)\<rparr>)
               else (None, s\<lparr>env := tl (env s)\<rparr>))"
  by (auto simp: malloc_def env_next_eq)

lemma block_write_simps [simp]:
  "inodes (block_write sec b s) = inodes s"
  "open_inodes (block_write sec b s) = open_inodes s"
  "free_map (block_write sec b s) = free_map s"
  "free_map_file (block_write sec b s) = free_map_file s"
  "persisted (block_write sec b s) = persisted s"
  "files (block_write sec b s) = files s"
  "brk (block_write sec b s) = brk s"
  "env (block_write sec b s) = env s"
  "dir_entries (block_write sec b s) = dir_entries s"
  "disk (block_write sec b s) = (disk s)(sec := b)"
  by (simp_all add: block_write_def)

lemma frame_refl [simp]: "frame s s"
  by (simp add: frame_def)

lemma frame_trans: "frame s t \<Longrightarrow> frame t u \<Longrightarrow> frame s u"
  by (simp add: frame_def)

lemma frame_malloc [simp]: "frame s (snd (malloc s))"
  by (simp add: frame_def malloc_eq)

lemma disk_malloc [simp]: "disk (snd (malloc s)) = disk s"
  by (simp add: malloc_eq)

lemma frame_block_write [simp]: "frame s (block_write sec b s)"
  by (simp add: frame_def)

lemma inode_read_loop_frame:
  "frame s (snd (inode_read_loop ino n ofs br bounce buf s)) \<and>
   disk (snd (inode_read_loop ino n ofs br bounce buf s)) = disk s"
proof (induction ino n ofs br bounce buf s rule: inode_read_loop.induct)
  case (1 ino n ofs br bounce buf s)
  show ?case
  proof (cases "n > 0 \<and> \<not> chunk_size ino n ofs \<le> 0")
    case False
    then show ?thesis by (subst (1 2) inode_read_loop.simps) auto
  next
    case go: True
    show ?thesis
    proof (cases "ofs smod BLOCK_SECTOR_SIZE = 0 \<and> chunk_size ino n ofs = BLOCK_SECTOR_SIZE")
      case True
      with go "1.IH"(1) show ?thesis by (subst (1 2) inode_read_loop.simps) auto
    next
      case part: False
      show ?thesis
      proof (cases "\<not> bounce \<and> fst (malloc s) = None")
        case True
        with go part show ?thesis
          by (subst (1 2) inode_read_loop.simps) auto
      next
        case False
        have "frame s (if bounce then s else snd (malloc s))"
          "disk (if bounce then s else snd (malloc s)) = disk s" by auto
        with "1.IH"(2) go part False show ?thesis
          by (subst (1 2) inode_read_loop.simps) (auto intro: frame_trans simp del: inode_read_loop.simps)
      qed
    qed
  qed
qed

lemma inode_write_loop_frame:
  "frame s (snd (inode_write_loop ino buf n ofs bw bounce s))"
proof (induction ino buf n ofs bw bounce s rule: inode_write_loop.induct)
  case (1 ino buf n ofs bw bounce s)
  show ?case
  proof (cases "n > 0 \<and> \<not> chunk_size ino n ofs \<le> 0")
    case False
    then show ?thesis by (subst inode_write_loop.simps) auto
  next
    case go: True
    show ?thesis
    proof (cases "ofs smod BLOCK_SECTOR_SIZE = 0 \<and> chunk_size ino n ofs = BLOCK_SECTOR_SIZE")
      case True
      with go "1.IH"(1) show ?thesis
        by (subst inode_write_loop.simps)
           (auto intro: frame_trans [OF frame_block_write] simp del: inode_write_loop.simps)
    next
      case part: False
      show ?thesis
      proof (cases "\<not> bounce \<and> fst (malloc s) = None")
        case True
        with go part show ?thesis
          by (subst inode_write_loop.simps) auto
      next
        case False
        have "frame s (block_write (byte_to_sector ino ofs)
                 (Data_blk (write_sector s ino buf n ofs bw)) (if bounce then s else snd (malloc s)))"
          by (auto intro: frame_trans [OF frame_malloc])
        with "1.IH"(2) go part False show ?thesis
          by (subst inode_write_loop.simps) (auto intro: frame_trans simp del: inode_write_loop.simps)
      qed
    qed
  qed
qed

lemma cache_ok_frame: "frame s s' \<Longrightarrow> cache_ok s \<Longrightarrow> cache_ok s'"
  by (auto simp: frame_def cache_ok_def)

lemma cache_ok_cong:
  "open_inodes s' = open_inodes s \<Longrightarrow> inodes s' = inodes s \<Longrightarrow> brk s' = brk s \<Longrightarrow>
   cache_ok s' = cache_ok s"
  by (simp add: cache_ok_def)

lemma cache_ok_upd:
  assumes "cache_ok s" "inodes s a = Some i" "sector i' = sector i"
  shows "cache_ok (s\<lparr>inodes := (inodes s)(a \<mapsto> i')\<rparr>)"
proof -
  have "(\<lambda>b. map_option sector (((inodes s)(a \<mapsto> i')) b)) = (\<lambda>b. map_option sector (inodes s b))"
    using assms(2,3) by (auto simp: fun_eq_iff)
  with assms(1) show ?thesis by (auto simp: cache_ok_def)
qed

lemma find_open_hit:
  assumes "a \<in> set xs" "h a = Some i" "\<forall>b\<in>set xs. h b \<noteq> None"
    "distinct (map (\<lambda>b. map_option sector (h b)) xs)"
  shows "find_open h (sector i) xs = Some (Some a)"
  using assms
proof (induction xs)
  case Nil
  then show ?case by simp
next
  case (Cons x xs)
  show ?case
  proof (cases "x = a")
    case True
    with Cons.prems show ?thesis by simp
  next
    case False
    with Cons.prems have a: "a \<in> set xs" by simp
    from Cons.prems obtain j where j: "h x = Some j" by auto
    from Cons.prems(4) a have "map_option sector (h x) \<noteq> map_option sector (h a)"
      by (auto simp: image_iff)
    with j Cons.prems(2) have "sector j \<noteq> sector i" by simp
    with Cons j a show ?thesis by simp
  qed
qed

lemma find_open_SomeD:
  "find_open h sec xs = Some (Some a) \<Longrightarrow> a \<in> set xs \<and> map_option sector (h a) = Some sec"
  by (induction xs) (auto split: option.splits if_splits)

lemma find_open_NoneD:
  "find_open h sec xs = Some None \<Longrightarrow> \<forall>b\<in>set xs. map_option sector (h b) \<noteq> Some sec"
  by (induction xs) (auto split: option.splits if_splits)

lemma inode_reopen_Some:
  "inode_reopen (Some a) s = Some r \<longleftrightarrow>
     (\<exists>i. inodes s a = Some i \<and>
          r = (Some a, s\<lparr>inodes := (inodes s)(a \<mapsto> i\<lparr>open_cnt := open_cnt i + 1\<rparr>)\<rparr>))"
  by (auto simp: inode_reopen_def split: option.splits)

lemma cache_ok_inode_open:
  assumes "cache_ok s" "inode_open sec s = Some (p, s1)"
  shows "cache_ok s1"
proof (cases "find_open (inodes s) sec (open_inodes s)")
  case None
  with assms(2) show ?thesis by (simp add: inode_open_def)
next
  case (Some r)
  show ?thesis
  proof (cases r)
    case (Some a)
    with \<open>find_open (inodes s) sec (open_inodes s) = Some r\<close> assms(2)
    obtain i where "inodes s a = Some i"
      "s1 = s\<lparr>inodes := (inodes s)(a \<mapsto> i\<lparr>open_cnt := open_cnt i + 1\<rparr>)\<rparr>"
      by (auto simp: inode_open_def inode_reopen_Some)
    with assms(1) show ?thesis by (simp add: cache_ok_upd)
  next
    case None
    note fo = find_open_NoneD [OF \<open>find_open (inodes s) sec (open_inodes s) = Some r\<close> [unfolded None]]
    show ?thesis
    proof (cases "env_ok s")
      case False
      with None \<open>find_open (inodes s) sec (open_inodes s) = Some r\<close> assms(2)
      have "s1 = s\<lparr>env := tl (env s)\<rparr>" by (auto simp: inode_open_def malloc_eq)
      with assms(1) show ?thesis by (simp add: cache_ok_def)
    next
      case True
      with None \<open>find_open (inodes s) sec (open_inodes s) = Some r\<close> assms(2)
      have s1: "open_inodes s1 = brk s # open_inodes s" "brk s1 = Suc (brk s)"
        "inodes s1 = (inodes s)(brk s \<mapsto> \<lparr>sector = sec, open_cnt = 1, removed = False,
            deny_write_cnt = 0, data = block_read_inode (s\<lparr>brk := Suc (brk s), env := tl (env s)\<rparr>) sec\<rparr>)"
        by (auto simp: inode_open_def malloc_eq)
      from assms(1) have old: "\<forall>a\<in>set (open_inodes s). a < brk s \<and> inodes s a \<noteq> None"
        and d: "distinct (map (\<lambda>a. map_option sector (inodes s a)) (open_inodes s))"
        by (auto simp: cache_ok_def)
      from old have nb: "brk s \<notin> set (open_inodes s)" by auto
      define f where "f = (\<lambda>a. map_option sector (inodes s1 a))"
      define g where "g = (\<lambda>a. map_option sector (inodes s a))"
      have eq: "map f (open_inodes s) = map g (open_inodes s)"
        using nb by (auto simp: s1 f_def g_def)
      have new: "f (brk s) = Some sec" by (simp add: s1 f_def)
      have "Some sec \<notin> set (map g (open_inodes s))"
      proof
        assume "Some sec \<in> set (map g (open_inodes s))"
        then obtain b where "b \<in> set (open_inodes s)" "map_option sector (inodes s b) = Some sec"
          unfolding set_map image_iff g_def by metis
        with fo show False by blast
      qed
      with d eq new have "distinct (map f (open_inodes s1))"
        by (simp only: s1 list.map distinct.simps g_def simp_thms)
      moreover have "\<forall>a\<in>set (open_inodes s1). a < brk s1 \<and> inodes s1 a \<noteq> None"
        using old by (auto simp: s1 less_Suc_eq)
      ultimately show ?thesis
        by (simp only: cache_ok_def f_def)
    qed
  qed
qed

lemma inode_open_again:
  assumes "cache_ok s" "a \<in> set (open_inodes s)" "inodes s a = Some i"
  shows "inode_open (sector i) s =
           Some (Some a, s\<lparr>inodes := (inodes s)(a \<mapsto> i\<lparr>open_cnt := open_cnt i + 1\<rparr>)\<rparr>)"
proof -
  from assms have "find_open (inodes s) (sector i) (open_inodes s) = Some (Some a)"
    by (intro find_open_hit) (auto simp: cache_ok_def)
  with assms(3) show ?thesis by (simp add: inode_open_def inode_reopen_def)
qed

lemma inode_open_live:
  assumes "inode_open sec s = Some (Some a, s1)"
  shows "a \<in> set (open_inodes s1) \<and> map_option sector (inodes s1 a) = Some sec"
proof (cases "find_open (inodes s) sec (open_inodes s)")
  case None
  with assms show ?thesis by (simp add: inode_open_def)
next
  case (Some r)
  show ?thesis
  proof (cases r)
    case None
    with Some assms show ?thesis
      by (auto simp: inode_open_def malloc_eq split: if_splits)
  next
    case (Some b)
    with \<open>find_open (inodes s) sec (open_inodes s) = Some r\<close> assms
    have "b = a" and "\<exists>i. inodes s a = Some i \<and> s1 = s\<lparr>inodes := (inodes s)(a \<mapsto> i\<lparr>open_cnt := open_cnt i + 1\<rparr>)\<rparr>"
      by (auto simp: inode_open_def inode_reopen_Some)
    with find_open_SomeD [OF \<open>find_open (inodes s) sec (open_inodes s) = Some r\<close> [unfolded Some]]
    show ?thesis by auto
  qed
qed

lemma cache_ok_free_map_release:
  "free_map_release sec n s = Some s1 \<Longrightarrow> cache_ok s1 = cache_ok s"
  by (auto simp: free_map_release_eq cache_ok_def split: if_splits)

lemma cache_ok_evict:
  assumes "cache_ok s"
  shows "cache_ok (s\<lparr>open_inodes := remove1 a (open_inodes s), inodes := (inodes s)(a := None)\<rparr>)"
proof -
  from assms have d: "distinct (map (\<lambda>b. map_option sector (inodes s b)) (open_inodes s))"
    and old: "\<forall>b\<in>set (open_inodes s). b < brk s \<and> inodes s b \<noteq> None"
    by (auto simp: cache_ok_def)
  from d have dl: "distinct (open_inodes s)" by (simp add: distinct_map)
  then have na: "a \<notin> set (remove1 a (open_inodes s))" by simp
  then have "map (\<lambda>b. map_option sector (((inodes s)(a := None)) b)) (remove1 a (open_inodes s))
           = map (\<lambda>b. map_option sector (inodes s b)) (remove1 a (open_inodes s))"
    by auto
  moreover have "distinct (map (\<lambda>b. map_option sector (inodes s b)) (remove1 a (open_inodes s)))"
    using d dl by (metis distinct_map distinct_remove1 inj_on_subset set_remove1_subset)
  ultimately have "distinct (map (\<lambda>b. map_option sector (((inodes s)(a := None)) b))
                      (remove1 a (open_inodes s)))"
    by (simp only:)
  moreover have "\<forall>b\<in>set (remove1 a (open_inodes s)). b < brk s \<and> ((inodes s)(a := None)) b \<noteq> None"
    using old na by (auto dest: notin_set_remove1)
  ultimately show ?thesis
    by (simp add: cache_ok_def)
qed

lemma cache_ok_inode_close:
  assumes "cache_ok s" "inode_close p s = Some s1"
  shows "cache_ok s1"
proof (cases p)
  case None
  with assms show ?thesis by (simp add: inode_close_def)
next
  case (Some a)
  with assms(2) obtain i where i: "inodes s a = Some i"
    by (auto simp: inode_close_def split: option.splits)
  let ?e = "s\<lparr>open_inodes := remove1 a (open_inodes s)\<rparr>"
  show ?thesis
  proof (cases "open_cnt i - 1 = 0")
    case False
    with assms Some i show ?thesis by (auto simp: inode_close_def cache_ok_upd)
  next
    case True
    show ?thesis
    proof (cases "removed i")
      case False
      with True assms(2) Some i
      have "s1 = s\<lparr>open_inodes := remove1 a (open_inodes s), inodes := (inodes s)(a := None)\<rparr>"
        by (auto simp: inode_close_def)
      with assms(1) show ?thesis by (simp add: cache_ok_evict)
    next
      case rm: True
      with True assms(2) Some i obtain s2 s3 where
        r1: "free_map_release (sector i) 1 ?e = Some s2" and
        r2: "free_map_release (start (data i)) (bytes_to_sectors (length_bytes (data i))) s2 = Some s3"
        and s1: "s1 = s3\<lparr>inodes := (inodes s3)(a := None)\<rparr>"
        by (auto simp: inode_close_def Let_def split: option.splits)
      from r1 r2 have f: "open_inodes s3 = remove1 a (open_inodes s)" "inodes s3 = inodes s" "brk s3 = brk s"
        by (auto simp: free_map_release_eq split: if_splits)
      have "cache_ok s1 = cache_ok (s\<lparr>open_inodes := remove1 a (open_inodes s), inodes := (inodes s)(a := None)\<rparr>)"
        by (rule cache_ok_cong) (simp_all add: s1 f)
      with assms(1) show ?thesis by (simp add: cache_ok_evict)
    qed
  qed
qed

lemma fold_block_write_frame:
  "frame s (fold (\<lambda>i. block_write (f i) b) xs s) \<and> env (fold (\<lambda>i. block_write (f i) b) xs s) = env s
   \<and> brk (fold (\<lambda>i. block_write (f i) b) xs s) = brk s"
proof (induction xs arbitrary: s)
  case Nil
  show ?case by simp
next
  case (Cons x xs)
  from Cons [of "block_write (f x) b s"] show ?case
    by (auto simp: frame_def)
qed

lemma free_map_allocate_heap:
  assumes "free_map_allocate cnt s = (r, s1)"
  shows "open_inodes s1 = open_inodes s \<and> inodes s1 = inodes s \<and> files s1 = files s \<and>
         brk s1 = brk s \<and> dir_entries s1 = dir_entries s \<and> free_map_file s1 = free_map_file s \<and>
         disk s1 = disk s"
proof (cases "bitmap_scan (free_map s) 0 cnt False")
  case None
  with assms free_map_allocate_none [OF None] show ?thesis by simp
next
  case (Some sec)
  show ?thesis
  proof (cases "free_map_file s = None")
    case True
    with assms free_map_allocate_nofile [OF Some True] show ?thesis by auto
  next
    case False
    with assms free_map_allocate_ok [OF Some False] free_map_allocate_fail [OF Some False]
    show ?thesis by (cases "env_ok s") auto
  qed
qed

lemma inode_create_heap:
  assumes "inode_create sec len s = Some (r, s1)"
  shows "open_inodes s1 = open_inodes s \<and> inodes s1 = inodes s \<and> files s1 = files s \<and>
         brk s \<le> brk s1 \<and> dir_entries s1 = dir_entries s \<and> free_map_file s1 = free_map_file s"
proof -
  from assms have len: "\<not> len < 0" by (auto simp: inode_create_def split: if_splits)
  show ?thesis
  proof (cases "env_ok s")
    case False
    with assms len show ?thesis by (auto simp: inode_create_def malloc_eq)
  next
    case True
    let ?s1 = "s\<lparr>brk := Suc (brk s), env := tl (env s)\<rparr>"
    obtain r2 s2 where a: "free_map_allocate (bytes_to_sectors len) ?s1 = (r2, s2)"
      by (cases "free_map_allocate (bytes_to_sectors len) ?s1") auto
    note h = free_map_allocate_heap [OF a]
    show ?thesis
    proof (cases r2)
      case None
      with assms len True a h show ?thesis
        by (auto simp: inode_create_def malloc_eq Let_def)
    next
      case (Some st)
      let ?w = "block_write sec (Inode_blk \<lparr>start = st, length_bytes = len, magic = INODE_MAGIC, is_symlink = False\<rparr>) s2"
      from assms len True a Some
      have s1: "s1 = fold (\<lambda>i. block_write (st + i) (Data_blk zeros)) [0 ..< bytes_to_sectors len] ?w"
        by (auto simp: inode_create_def malloc_eq Let_def)
      from fold_block_write_frame [of ?w "\<lambda>i. st + i" "Data_blk zeros" "[0 ..< bytes_to_sectors len]"]
      show ?thesis using h unfolding s1 by (auto simp: frame_def)
    qed
  qed
qed

lemma cache_ok_heap:
  "open_inodes s1 = open_inodes s \<Longrightarrow> inodes s1 = inodes s \<Longrightarrow> brk s \<le> brk s1 \<Longrightarrow>
   cache_ok s \<Longrightarrow> cache_ok s1"
  by (auto simp: cache_ok_def)

text \<open>
  Claim C7. On a cache with at most one inode per sector, every operation of the inode layer
  that returns leaves such a cache. inode_open of the sector of an inode in the cache returns
  that very inode (the same address) with its open count incremented and creates nothing; so
  the second of two inode_open calls on a sector returns the address the first one returned,
  and what one reference changes in the inode (deny_write_cnt, through inode_deny_write, for
  one) is what the other reads.
\<close>

theorem inode_cache_unique:
  assumes "cache_ok s"
  shows "(\<forall>p s1. inode_open sec s = Some (p, s1) \<longrightarrow> cache_ok s1)
       \<and> (\<forall>q s1. inode_reopen p s = Some (q, s1) \<longrightarrow> cache_ok s1)
       \<and> (\<forall>s1. inode_close p s = Some s1 \<longrightarrow> cache_ok s1)
       \<and> (\<forall>s1. inode_remove p s = Some s1 \<longrightarrow> cache_ok s1)
       \<and> (\<forall>s1. inode_deny_write p s = Some s1 \<longrightarrow> cache_ok s1)
       \<and> (\<forall>s1. inode_allow_write p s = Some s1 \<longrightarrow> cache_ok s1)
       \<and> (\<forall>s1. inode_set_symlink p v s = Some s1 \<longrightarrow> cache_ok s1)
       \<and> (\<forall>r s1. inode_read_at p n ofs s = Some (r, s1) \<longrightarrow> cache_ok s1)
       \<and> (\<forall>r s1. inode_write_at p buf n ofs s = Some (r, s1) \<longrightarrow> cache_ok s1)
       \<and> (\<forall>r s1. inode_create sec len s = Some (r, s1) \<longrightarrow> cache_ok s1)
       \<and> (\<forall>a i. a \<in> set (open_inodes s) \<and> inodes s a = Some i \<longrightarrow>
             inode_open (sector i) s =
               Some (Some a, s\<lparr>inodes := (inodes s)(a \<mapsto> i\<lparr>open_cnt := open_cnt i + 1\<rparr>)\<rparr>))
       \<and> (\<forall>a s1. inode_open sec s = Some (Some a, s1) \<longrightarrow>
             (\<exists>i. inodes s1 a = Some i \<and> sector i = sec \<and> a \<in> set (open_inodes s1) \<and>
                inode_open sec s1 =
                  Some (Some a, s1\<lparr>inodes := (inodes s1)(a \<mapsto> i\<lparr>open_cnt := open_cnt i + 1\<rparr>)\<rparr>)))"
proof (intro conjI allI impI)
  fix p' s1 assume "inode_open sec s = Some (p', s1)"
  with assms show "cache_ok s1" by (rule cache_ok_inode_open)
next
  fix q s1 assume "inode_reopen p s = Some (q, s1)"
  with assms show "cache_ok s1"
    by (auto simp: inode_reopen_def cache_ok_upd split: option.splits)
next
  fix s1 assume "inode_close p s = Some s1"
  with assms show "cache_ok s1" by (rule cache_ok_inode_close)
next
  fix s1 assume "inode_remove p s = Some s1"
  with assms show "cache_ok s1"
    by (auto simp: inode_remove_def cache_ok_upd split: option.splits)
next
  fix s1 assume "inode_deny_write p s = Some s1"
  with assms show "cache_ok s1"
    by (auto simp: inode_deny_write_Some cache_ok_upd)
next
  fix s1 assume "inode_allow_write p s = Some s1"
  with assms show "cache_ok s1"
    by (auto simp: inode_allow_write_Some cache_ok_upd)
next
  fix s1 assume "inode_set_symlink p v s = Some s1"
  then obtain a i where "inodes s a = Some i"
    "s1 = block_write (sector i) (Inode_blk ((data i)\<lparr>is_symlink := v\<rparr>))
            (s\<lparr>inodes := (inodes s)(a \<mapsto> i\<lparr>data := (data i)\<lparr>is_symlink := v\<rparr>\<rparr>)\<rparr>)"
    by (auto simp: inode_set_symlink_def Let_def split: option.splits)
  with cache_ok_upd [OF assms, of a i "i\<lparr>data := (data i)\<lparr>is_symlink := v\<rparr>\<rparr>"]
  show "cache_ok s1"
    by (auto intro: cache_ok_frame [OF frame_block_write])
next
  fix r s1 assume "inode_read_at p n ofs s = Some (r, s1)"
  then obtain ino where "s1 = snd (inode_read_loop ino n ofs 0 False [] s)"
    by (auto simp: inode_read_at_def split: option.splits) (metis snd_conv)
  with inode_read_loop_frame [of s ino n ofs 0 False "[]"] assms show "cache_ok s1"
    by (auto intro: cache_ok_frame)
next
  fix r s1 assume "inode_write_at p buf n ofs s = Some (r, s1)"
  then obtain ino where "s1 = s \<or> s1 = snd (inode_write_loop ino buf n ofs 0 False s)"
    by (auto simp: inode_write_at_def split: option.splits if_splits) (metis snd_conv)
  with inode_write_loop_frame [of s ino buf n ofs 0 False] assms show "cache_ok s1"
    by (auto intro: cache_ok_frame)
next
  fix r s1 assume "inode_create sec len s = Some (r, s1)"
  from inode_create_heap [OF this] assms show "cache_ok s1"
    by (auto intro: cache_ok_heap)
next
  fix a i assume "a \<in> set (open_inodes s) \<and> inodes s a = Some i"
  with assms show "inode_open (sector i) s =
      Some (Some a, s\<lparr>inodes := (inodes s)(a \<mapsto> i\<lparr>open_cnt := open_cnt i + 1\<rparr>)\<rparr>)"
    by (auto intro: inode_open_again)
next
  fix a s1 assume o: "inode_open sec s = Some (Some a, s1)"
  from cache_ok_inode_open [OF assms o] have c: "cache_ok s1" .
  from inode_open_live [OF o] obtain i where i: "a \<in> set (open_inodes s1)" "inodes s1 a = Some i" "sector i = sec"
    by auto
  from inode_open_again [OF c i(1,2)] i
  show "\<exists>i. inodes s1 a = Some i \<and> sector i = sec \<and> a \<in> set (open_inodes s1) \<and>
          inode_open sec s1 =
            Some (Some a, s1\<lparr>inodes := (inodes s1)(a \<mapsto> i\<lparr>open_cnt := open_cnt i + 1\<rparr>)\<rparr>)"
    by auto
qed

theorem inode_cache_unique_witness:
  "cache_ok (mounted [True, True, True] [])
   \<and> (\<exists>s1 s2. inode_open 5 (mounted [True, True, True] []) = Some (Some 2, s1)
        \<and> inode_open 5 s1 = Some (Some 2, s2)
        \<and> map_option open_cnt (inodes s2 2) = Some 2
        \<and> cache_ok s2)"
proof -
  let ?m = "mounted [True, True, True] []"
  have c: "cache_ok ?m"
    by (simp add: cache_ok_def mounted_def)
  obtain s1 where s1: "inode_open 5 ?m = Some (Some 2, s1)" "map_option open_cnt (inodes s1 2) = Some 1"
    by (simp add: inode_open_def mounted_def malloc_eq env_ok_def env_next_def FREE_MAP_SECTOR_def)
  note u = inode_cache_unique [where sec = 5 and p = None and v = False and n = 0 and ofs = 0
      and buf = "\<lambda>_. NUL" and len = 0]
  from u [OF c] have "\<forall>a s1. inode_open 5 ?m = Some (Some a, s1) \<longrightarrow>
             (\<exists>i. inodes s1 a = Some i \<and> sector i = 5 \<and> a \<in> set (open_inodes s1) \<and>
                inode_open 5 s1 =
                  Some (Some a, s1\<lparr>inodes := (inodes s1)(a \<mapsto> i\<lparr>open_cnt := open_cnt i + 1\<rparr>)\<rparr>))"
    and "\<forall>p s1. inode_open 5 ?m = Some (p, s1) \<longrightarrow> cache_ok s1"
    by simp_all
  with s1 obtain i where i: "inodes s1 2 = Some i"
    "inode_open 5 s1 = Some (Some 2, s1\<lparr>inodes := (inodes s1)(2 \<mapsto> i\<lparr>open_cnt := open_cnt i + 1\<rparr>)\<rparr>)"
    "cache_ok s1"
    by blast
  let ?s2 = "s1\<lparr>inodes := (inodes s1)(2 \<mapsto> i\<lparr>open_cnt := open_cnt i + 1\<rparr>)\<rparr>"
  from u [OF i(3)] have "\<forall>p s2. inode_open 5 s1 = Some (p, s2) \<longrightarrow> cache_ok s2" by simp
  with i(2) have "cache_ok ?s2" by blast
  moreover from i s1 have "map_option open_cnt (inodes ?s2 2) = Some 2" by simp
  ultimately show ?thesis using c s1 i by blast
qed

section \<open>Properties of inode_read_at and inode_write_at\<close>

lemma chunk_size_eq:
  assumes "0 \<le> ofs"
  shows "chunk_size ino n ofs = min n (min (inode_length ino - ofs) (512 - ofs mod 512))"
  using assms by (simp add: chunk_size_def BLOCK_SECTOR_SIZE_def smod_mod_positive Let_def min_def)

lemma chunk_size_pos:
  assumes "0 \<le> ofs" "ofs < inode_length ino" "0 < n"
  shows "0 < chunk_size ino n ofs"
proof -
  have "ofs mod 512 < 512" by simp
  with assms show ?thesis by (simp add: chunk_size_eq)
qed

lemma chunk_size_le:
  assumes "0 \<le> ofs"
  shows "chunk_size ino n ofs \<le> n" "chunk_size ino n ofs \<le> inode_length ino - ofs"
  using assms by (simp_all add: chunk_size_eq)

lemma env_ok_malloc: "env_ok s \<Longrightarrow> fst (malloc s) \<noteq> None"
  by (simp add: malloc_eq)

lemma count_step:
  fixes c n L ofs br :: int
  assumes "0 < c" "c \<le> n" "c \<le> L - ofs"
  shows "br + c + max 0 (min (n - c) (L - (ofs + c))) = br + max 0 (min n (L - ofs))"
  using assms by (simp add: min_def max_def)

lemma inode_read_loop_count:
  assumes "0 \<le> ofs" "ofs \<le> inode_length ino"
  shows "read_count_ok ino n ofs br bounce buf s (fst (inode_read_loop ino n ofs br bounce buf s))"
  using assms
proof (induction ino n ofs br bounce buf s rule: inode_read_loop.induct)
  case (1 ino n ofs br bounce buf s)
  let ?c = "chunk_size ino n ofs"
  note c_le = chunk_size_le [OF "1.prems"(1), of ino n]
  show ?case
  proof (cases "n > 0")
    case False
    then have "inode_read_loop ino n ofs br bounce buf s = ((br, buf), s)"
      by (subst inode_read_loop.simps) simp
    with False show ?thesis by (simp add: read_count_ok_def)
  next
    case n: True
    show ?thesis
    proof (cases "?c \<le> 0")
      case True
      with n chunk_size_pos [of ofs ino n] "1.prems" have e: "ofs = inode_length ino"
        by (cases "ofs < inode_length ino") auto
      from n True have "inode_read_loop ino n ofs br bounce buf s = ((br, buf), s)"
        by (subst inode_read_loop.simps) simp
      with e show ?thesis by (simp add: read_count_ok_def)
    next
      case c: False
      then have cpos: "0 < ?c" by simp
      have ofs': "0 \<le> ofs + ?c" "ofs + ?c \<le> inode_length ino"
        using c c_le "1.prems" by auto
      note arith = count_step [OF cpos c_le, of br]
      show ?thesis
      proof (cases "ofs smod BLOCK_SECTOR_SIZE = 0 \<and> ?c = BLOCK_SECTOR_SIZE")
        case full: True
        let ?buf = "buf @ map (block_read s (byte_to_sector ino ofs)) [0 ..< nat BLOCK_SECTOR_SIZE]"
        have u: "inode_read_loop ino n ofs br bounce buf s
               = inode_read_loop ino (n - ?c) (ofs + ?c) (br + ?c) bounce ?buf s"
          using n c full by (subst inode_read_loop.simps) (simp only: if_True if_False simp_thms)
        have l: "int (length ?buf) = int (length buf) + ?c"
          using full by (simp add: BLOCK_SECTOR_SIZE_def)
        from "1.IH"(1) [OF n c full ofs'] arith l cpos
        show ?thesis
          unfolding u read_count_ok_def by linarith
      next
        case part: False
        show ?thesis
        proof (cases "\<not> bounce \<and> fst (malloc s) = None")
          case True
          with env_ok_malloc [of s] have nb: "\<not> (bounce \<or> env_ok s)" by auto
          from True n c part
          have "inode_read_loop ino n ofs br bounce buf s = ((br, buf), snd (malloc s))"
            by (subst inode_read_loop.simps) (simp only: if_True if_False simp_thms)
          with nb show ?thesis by (simp add: read_count_ok_def)
        next
          case False
          let ?buf = "buf @ map (block_read s (byte_to_sector ino ofs))
                      [nat (ofs smod BLOCK_SECTOR_SIZE) ..< nat (ofs smod BLOCK_SECTOR_SIZE) + nat ?c]"
          let ?s = "if bounce then s else snd (malloc s)"
          have u: "inode_read_loop ino n ofs br bounce buf s
               = inode_read_loop ino (n - ?c) (ofs + ?c) (br + ?c) True ?buf ?s"
            using n c part False by (subst inode_read_loop.simps) (simp only: if_True if_False simp_thms)
          have l: "int (length ?buf) = int (length buf) + ?c"
            using cpos by simp
          from "1.IH"(2) [OF n c part False ofs'] arith l cpos
          show ?thesis
            unfolding u read_count_ok_def by simp
        qed
      qed
    qed
  qed
qed

lemma env_ok_block_write [simp]: "env_ok (block_write sec b s) = env_ok s"
  by (simp add: env_ok_def env_next_def block_write_def split: list.splits)

lemma inode_write_loop_count:
  assumes "0 \<le> ofs" "ofs \<le> inode_length ino"
  shows "write_count_ok ino n ofs bw bounce s (fst (inode_write_loop ino buf n ofs bw bounce s))"
  using assms
proof (induction ino buf n ofs bw bounce s rule: inode_write_loop.induct)
  case (1 ino buf n ofs bw bounce s)
  let ?c = "chunk_size ino n ofs"
  note c_le = chunk_size_le [OF "1.prems"(1), of ino n]
  show ?case
  proof (cases "n > 0")
    case False
    then have "inode_write_loop ino buf n ofs bw bounce s = (bw, s)"
      by (subst inode_write_loop.simps) simp
    with False show ?thesis by (simp add: write_count_ok_def)
  next
    case n: True
    show ?thesis
    proof (cases "?c \<le> 0")
      case True
      with n chunk_size_pos [of ofs ino n] "1.prems" have e: "ofs = inode_length ino"
        by (cases "ofs < inode_length ino") auto
      from n True have "inode_write_loop ino buf n ofs bw bounce s = (bw, s)"
        by (subst inode_write_loop.simps) simp
      with e show ?thesis by (simp add: write_count_ok_def)
    next
      case c: False
      then have cpos: "0 < ?c" by simp
      have ofs': "0 \<le> ofs + ?c" "ofs + ?c \<le> inode_length ino"
        using c c_le "1.prems" by auto
      note arith = count_step [OF cpos c_le, of bw]
      show ?thesis
      proof (cases "ofs smod BLOCK_SECTOR_SIZE = 0 \<and> ?c = BLOCK_SECTOR_SIZE")
        case full: True
        let ?s = "block_write (byte_to_sector ino ofs)
                    (Data_blk (map (\<lambda>i. buf (nat bw + i)) [0 ..< nat BLOCK_SECTOR_SIZE])) s"
        have u: "inode_write_loop ino buf n ofs bw bounce s
               = inode_write_loop ino buf (n - ?c) (ofs + ?c) (bw + ?c) bounce ?s"
          using n c full by (subst inode_write_loop.simps) (simp only: if_True if_False simp_thms)
        from "1.IH"(1) [OF n c full ofs'] arith cpos
        show ?thesis
          unfolding u write_count_ok_def by simp
      next
        case part: False
        show ?thesis
        proof (cases "\<not> bounce \<and> fst (malloc s) = None")
          case True
          with env_ok_malloc [of s] have nb: "\<not> (bounce \<or> env_ok s)" by auto
          from True n c part
          have "inode_write_loop ino buf n ofs bw bounce s = (bw, snd (malloc s))"
            by (subst inode_write_loop.simps) (simp only: if_True if_False simp_thms)
          with nb show ?thesis by (simp add: write_count_ok_def)
        next
          case False
          let ?s = "block_write (byte_to_sector ino ofs)
                      (Data_blk (write_sector s ino buf n ofs bw))
                      (if bounce then s else snd (malloc s))"
          have u: "inode_write_loop ino buf n ofs bw bounce s
               = inode_write_loop ino buf (n - ?c) (ofs + ?c) (bw + ?c) True ?s"
            using n c part False by (subst inode_write_loop.simps) (simp only: if_True if_False simp_thms)
          from "1.IH"(2) [OF n c part False ofs'] arith cpos
          show ?thesis
            unfolding u write_count_ok_def by simp
        qed
      qed
    qed
  qed
qed

lemma example_fs_inode:
  "inodes (example_fs len e) 3 = Some \<lparr>sector = 3, open_cnt = 1, removed = False, deny_write_cnt = 0,
      data = \<lparr>start = 4, length_bytes = len, magic = INODE_MAGIC, is_symlink = False\<rparr>\<rparr>"
  "env (example_fs len e) = e"
  by (simp_all add: example_fs_def)

text \<open>
  Claim C5, amended. For an inode of length \<open>L\<close>, an offset between 0 and \<open>L\<close> and a
  size \<open>n\<close> that is not negative, inode_read_at returns, transfers as many bytes as it
  reports, at most \<open>min n (L - ofs)\<close> of them and none from beyond the end of the file;
  when the allocation of the bounce buffer succeeds it transfers exactly
  \<open>min n (L - ofs)\<close> bytes. The inode and the device are left as they were.
\<close>

theorem inode_read_at_count:
  assumes "inodes s a = Some ino" "0 \<le> ofs" "ofs \<le> inode_length ino" "0 \<le> n"
  shows "\<exists>cnt buf s1. inode_read_at (Some a) n ofs s = Some ((cnt, buf), s1)
           \<and> 0 \<le> cnt \<and> cnt \<le> min n (inode_length ino - ofs) \<and> ofs + cnt \<le> inode_length ino
           \<and> int (length buf) = cnt
           \<and> (env_ok s \<longrightarrow> cnt = min n (inode_length ino - ofs))
           \<and> inodes s1 = inodes s \<and> disk s1 = disk s"
proof -
  obtain cnt buf s1 where r: "inode_read_loop ino n ofs 0 False [] s = ((cnt, buf), s1)"
    by (metis prod.collapse)
  from inode_read_loop_count [OF assms(2,3), of n 0 False "[]" s] r assms(2-)
  have "0 \<le> cnt" "cnt \<le> min n (inode_length ino - ofs)" "int (length buf) = cnt"
    "env_ok s \<longrightarrow> cnt = min n (inode_length ino - ofs)"
    by (auto simp: read_count_ok_def)
  moreover from inode_read_loop_frame [of s ino n ofs 0 False "[]"] r
  have "inodes s1 = inodes s" "disk s1 = disk s" by (auto simp: frame_def)
  ultimately show ?thesis using assms(1) r by (auto simp: inode_read_at_def)
qed

theorem inode_read_at_count_witness:
  "map_option inode_length (inodes (example_fs 1000 []) 3) = Some 1000
   \<and> env_ok (example_fs 1000 [])
   \<and> (\<exists>buf s1. inode_read_at (Some 3) 600 500 (example_fs 1000 []) = Some ((500, buf), s1)
         \<and> length buf = 500)"
proof -
  let ?s = "example_fs 1000 []"
  let ?ino = "\<lparr>sector = 3, open_cnt = 1, removed = False, deny_write_cnt = 0,
      data = \<lparr>start = 4, length_bytes = 1000, magic = INODE_MAGIC, is_symlink = False\<rparr>\<rparr>"
  have i: "inodes ?s 3 = Some ?ino" by (rule example_fs_inode)
  have l: "inode_length ?ino = 1000" by (simp add: inode_length_def)
  have e: "env_ok ?s" by (simp add: env_ok_def env_next_def example_fs_inode)
  from inode_read_at_count [OF i, of 500 600] e l
  obtain cnt buf s1 where "inode_read_at (Some 3) 600 500 ?s = Some ((cnt, buf), s1)"
    "cnt = 500" "int (length buf) = cnt"
    by auto
  with i l e show ?thesis by auto
qed

text \<open>
  Claim C5 as stated fails when the bounce buffer cannot be allocated: of 10 bytes requested
  at offset 0 of a file of 10 bytes, none is transferred. It fails for a negative size too:
  a request of -1 bytes returns 0, which is not \<open>min (- 1) 10\<close>.
\<close>

theorem inode_read_at_short:
  "map_option inode_length (inodes (example_fs 10 [False]) 3) = Some 10
   \<and> map_option (\<lambda>r. fst (fst r)) (inode_read_at (Some 3) 10 0 (example_fs 10 [False])) = Some 0
   \<and> map_option inode_length (inodes (example_fs 10 []) 3) = Some 10
   \<and> map_option (\<lambda>r. fst (fst r)) (inode_read_at (Some 3) (- 1) 0 (example_fs 10 [])) = Some 0"
  by (simp add: inode_read_at_def example_fs_inode inode_length_def inode_read_loop.simps
        chunk_size_def BLOCK_SECTOR_SIZE_def malloc_eq env_ok_def env_next_def)

text \<open>
  Claim C2, amended. For an inode of length \<open>L\<close> with deny_write_cnt zero, an offset
  between 0 and \<open>L\<close> and a size \<open>n\<close> that is not negative, inode_write_at returns at
  most \<open>min n (L - ofs)\<close>, and exactly that when the allocation of the bounce buffer
  succeeds; the in-memory inodes, with the length of this one, are unchanged.
\<close>

theorem inode_write_at_count:
  assumes "inodes s a = Some ino" "deny_write_cnt ino = 0"
    "0 \<le> ofs" "ofs \<le> inode_length ino" "0 \<le> n"
  shows "\<exists>cnt s1. inode_write_at (Some a) buf n ofs s = Some (cnt, s1)
           \<and> 0 \<le> cnt \<and> cnt \<le> min n (inode_length ino - ofs)
           \<and> (env_ok s \<longrightarrow> cnt = min n (inode_length ino - ofs))
           \<and> inodes s1 = inodes s
           \<and> map_option inode_length (inodes s1 a) = Some (inode_length ino)"
proof -
  obtain cnt s1 where r: "inode_write_loop ino buf n ofs 0 False s = (cnt, s1)"
    by (metis prod.collapse)
  from inode_write_loop_count [OF assms(3,4), of n 0 False s buf] r assms(3-)
  have "0 \<le> cnt" "cnt \<le> min n (inode_length ino - ofs)"
    "env_ok s \<longrightarrow> cnt = min n (inode_length ino - ofs)"
    by (auto simp: write_count_ok_def)
  moreover from inode_write_loop_frame [of s ino buf n ofs 0 False] r
  have "inodes s1 = inodes s" by (auto simp: frame_def)
  ultimately show ?thesis using assms(1,2) r by (auto simp: inode_write_at_def)
qed

theorem inode_write_at_count_witness:
  "map_option inode_length (inodes (example_fs 1000 []) 3) = Some 1000
   \<and> map_option deny_write_cnt (inodes (example_fs 1000 []) 3) = Some 0
   \<and> env_ok (example_fs 1000 [])
   \<and> (\<exists>s1. inode_write_at (Some 3) (\<lambda>i. CHR ''A'') 600 500 (example_fs 1000 []) = Some (500, s1)
         \<and> map_option inode_length (inodes s1 3) = Some 1000)"
proof -
  let ?s = "example_fs 1000 []"
  let ?ino = "\<lparr>sector = 3, open_cnt = 1, removed = False, deny_write_cnt = 0,
      data = \<lparr>start = 4, length_bytes = 1000, magic = INODE_MAGIC, is_symlink = False\<rparr>\<rparr>"
  have i: "inodes ?s 3 = Some ?ino" by (rule example_fs_inode)
  have l: "inode_length ?ino = 1000" "deny_write_cnt ?ino = 0" by (simp_all add: inode_length_def)
  have e: "env_ok ?s" by (simp add: env_ok_def env_next_def example_fs_inode)
  from inode_write_at_count [OF i l(2), of 500 600 "\<lambda>i. CHR ''A''"] e l
  obtain cnt s1 where "inode_write_at (Some 3) (\<lambda>i. CHR ''A'') 600 500 ?s = Some (cnt, s1)"
    "cnt = 500" "map_option inode_length (inodes s1 3) = Some 1000"
    by auto
  with i l e show ?thesis by auto
qed

text \<open>
  Claim C2 as stated fails when the bounce buffer cannot be allocated: of 10 bytes to write
  at offset 0 of a file of 10 bytes, none is written. It fails for a negative size too: a
  request of -1 bytes returns 0, which is not \<open>min (- 1) 10\<close>.
\<close>

theorem inode_write_at_short:
  "map_option inode_length (inodes (example_fs 10 [False]) 3) = Some 10
   \<and> map_option deny_write_cnt (inodes (example_fs 10 [False]) 3) = Some 0
   \<and> map_option fst (inode_write_at (Some 3) (\<lambda>i. CHR ''A'') 10 0 (example_fs 10 [False])) = Some 0
   \<and> map_option inode_length (inodes (example_fs 10 []) 3) = Some 10
   \<and> map_option deny_write_cnt (inodes (example_fs 10 []) 3) = Some 0
   \<and> map_option fst (inode_write_at (Some 3) (\<lambda>i. CHR ''A'') (- 1) 0 (example_fs 10 [])) = Some 0"
  by (simp add: inode_write_at_def example_fs_inode inode_length_def inode_write_loop.simps
        chunk_size_def BLOCK_SECTOR_SIZE_def malloc_eq env_ok_def env_next_def)

section \<open>Properties of deferred removal\<close>









lemma chunk_size_removed [simp]:
  "chunk_size (ino\<lparr>removed := b\<rparr>) n ofs = chunk_size ino n ofs"
  "byte_to_sector (ino\<lparr>removed := b\<rparr>) ofs = byte_to_sector ino ofs"
  by (simp_all add: chunk_size_def byte_to_sector_def inode_length_def)


lemma block_read_inodes_upd [simp]: "block_read (s\<lparr>inodes := h\<rparr>) = block_read s"
  by (simp add: block_read_def fun_eq_iff)



lemma write_sector_removed [simp]:
  "write_sector (s\<lparr>inodes := h\<rparr>) (ino\<lparr>removed := b\<rparr>) buf n ofs bw = write_sector s ino buf n ofs bw"
  by (simp add: write_sector_def Let_def)







section \<open>Properties of the file system operations\<close>

text \<open>
  Claim C10. filesys_open of the empty path returns NULL at once, in the state it was called
  in: nothing of the directory module, the inode cache, the free map or the device has
  changed.
\<close>

theorem filesys_open_empty:
  "filesys_open [] s = Some (Some (None, s))"
  by (simp add: filesys_open.simps)

lemma split_a: "split_path_filename ''/a'' = (''/'', ''a'')"
  by (simp add: split_path_filename_def)

lemma ex_fields:
  "free_map (example_fs len e) = [True, True, True, True, True, True, False, False]"
  "free_map_file (example_fs len e) = Some 0"
  "open_inodes (example_fs len e) = [3, 1]"
  "brk (example_fs len e) = 4"
  "dir_entries (example_fs len e) = [(''a'', 3)]"
  "persisted (example_fs len e) = [True, True, True, True, True, True, False, False]"
  by (simp_all add: example_fs_def)

text \<open>
  Claim C1 fails on the code. The root directory of \<open>example_fs\<close> has the entry \<open>a\<close>,
  and sectors 6 and 7 are free. filesys_create of \<open>/a\<close> with 512 bytes takes sector 6 for
  the inode, inode_create takes sector 7 for the data, dir_add refuses the duplicate name, and
  filesys_create releases sector 6 only: it returns false and sector 7 stays allocated.
\<close>

theorem filesys_create_leaks:
  "map_option fst (filesys_create ''/a'' 512 False (example_fs 1000 [])) = Some False
   \<and> map_option (\<lambda>r. free_map (snd r)) (filesys_create ''/a'' 512 False (example_fs 1000 []))
       = Some [True, True, True, True, True, True, False, True]
   \<and> free_map (example_fs 1000 []) = [True, True, True, True, True, True, False, False]"
  by (simp add: filesys_create_def split_a dir_open_path_def inode_open_def example_fs_def mounted_def
        ROOT_DIR_SECTOR_def FREE_MAP_SECTOR_def malloc_eq env_ok_def env_next_def
        free_map_allocate_def bitmap_scan_and_flip_def bitmap_scan_def bitmap_contains_def
        bitmap_write_eq inode_create_def bytes_to_sectors_def DIV_ROUND_UP_def BLOCK_SECTOR_SIZE_def
        dir_add_def free_map_release_eq bitmap_all_def dir_close_def inode_close_def
        block_read_inode_def Let_def)

section \<open>Properties of symbolic links\<close>







lemma inode_close_last:
  assumes "inodes s a = Some i" "open_cnt i = 1" "\<not> removed i"
  shows "inode_close (Some a) s =
           Some (s\<lparr>open_inodes := remove1 a (open_inodes s), inodes := (inodes s)(a := None)\<rparr>)"
  using assms by (simp add: inode_close_def)























end
